theory Spec2Isabelle
  imports Complex_Main
begin

section \<open>Values of the rendering library and of the host\<close>

text \<open>
  The program is \<^verbatim>\<open>src/js/app.js\<close>. Scene objects are mutable JavaScript objects that
  several closures share (the scene, \<^verbatim>\<open>setupXR\<close>'s \<^verbatim>\<open>chair\<close>, \<^verbatim>\<open>initAR\<close>'s \<^verbatim>\<open>chair\<close>), so they
  live in an explicit store: a reference is an address, and the store maps every address to
  the object's fields. A variable that may hold \<^verbatim>\<open>null\<close> or \<^verbatim>\<open>undefined\<close> is an
  \<open>option\<close>. Numbers are only copied, never computed with, so they are reals.
\<close>

type_synonym ref = nat
type_synonym session = nat
type_synonym source = nat
type_synonym texture = nat

text \<open>The environment map the library computes from a fetched panorama.\<close>

datatype envmap = FromEquirectangular texture

record vector3 =
  vx :: real
  vy :: real
  vz :: real

text \<open>A 4x4 matrix in the library's column-major order: four columns of four elements.\<close>

type_synonym vec4 = "real \<times> real \<times> real \<times> real"
type_synonym matrix4 = "vec4 \<times> vec4 \<times> vec4 \<times> vec4"

record object3d =
  position :: vector3
  quaternion :: vec4
  scale :: vector3
  visible :: bool
  matrix :: matrix4
  matrixAutoUpdate :: bool

text \<open>
  \<^verbatim>\<open>Vector3.setFromMatrixPosition(m)\<close> of the rendering library reads elements 12, 13, 14
  of \<^verbatim>\<open>m\<close> (the first three of the last column); \<^verbatim>\<open>Matrix4.fromArray(a)\<close> copies the
  sixteen numbers of \<^verbatim>\<open>a\<close>. The library is not part of the sources; these two are its
  documented behaviour.
\<close>

definition setFromMatrixPosition :: "matrix4 \<Rightarrow> vector3" where
  "setFromMatrixPosition m =
     (case m of (c0, c1, c2, (e12, e13, e14, e15)) \<Rightarrow> \<lparr>vx = e12, vy = e13, vz = e14\<rparr>)"

definition fromArray :: "matrix4 \<Rightarrow> matrix4" where
  "fromArray a = a"

text \<open>
  \<^verbatim>\<open>Matrix4.compose(position, quaternion, scale)\<close> and \<^verbatim>\<open>Object3D.updateMatrix()\<close> of
  the library: an object whose \<^verbatim>\<open>matrixAutoUpdate\<close> is on gets its matrix recomputed from
  its position, quaternion \<open>(x, y, z, w)\<close> and scale. The sources never switch
  \<^verbatim>\<open>matrixAutoUpdate\<close> off.
\<close>

definition compose :: "vector3 \<Rightarrow> vec4 \<Rightarrow> vector3 \<Rightarrow> matrix4" where
  "compose p q s =
     (case q of (x, y, z, w) \<Rightarrow>
        let x2 = x + x; y2 = y + y; z2 = z + z;
            xx = x * x2; xy = x * y2; xz = x * z2;
            yy = y * y2; yz = y * z2; zz = z * z2;
            wx = w * x2; wy = w * y2; wz = w * z2
        in (((1 - (yy + zz)) * vx s, (xy + wz) * vx s, (xz - wy) * vx s, 0),
            ((xy - wz) * vy s, (1 - (xx + zz)) * vy s, (yz + wx) * vy s, 0),
            ((xz + wy) * vz s, (yz - wx) * vz s, (1 - (xx + yy)) * vz s, 0),
            (vx p, vy p, vz p, 1)))"

definition updateMatrix :: "object3d \<Rightarrow> object3d" where
  "updateMatrix ob =
     (if matrixAutoUpdate ob
      then ob\<lparr>matrix := compose (position ob) (quaternion ob) (scale ob)\<rparr> else ob)"

text \<open>
  A synchronous call either completes or throws; a promise is either fulfilled or rejected.
\<close>

datatype error = TypeError string | ReferenceError string | HostError string

datatype completion = Normal | Threw error

datatype 'a settled = Fulfilled 'a | Rejected error

text \<open>
  The \<^verbatim>\<open>'end'\<close> listeners attached to a session: \<^verbatim>\<open>onSessionEnded\<close> of the
  \<open>k\<close>-th invocation of \<^verbatim>\<open>initAR\<close> (line 155), the anonymous function of the
  \<open>i\<close>-th invocation of \<^verbatim>\<open>requestHitTestSource\<close> (line 94), and the library's own
  listener, which \<^verbatim>\<open>renderer.xr.setSession\<close> attaches (line 158).
\<close>

datatype listener = OnSessionEnded nat | ResetHitTest nat | ManagerEnd

text \<open>The calls into the host's session interface, in the order they are made.\<close>

datatype call =
    RequestSession nat
  | EndSession session
  | RequestReferenceSpace session
  | RequestHitTestSource session

datatype callback = Render

text \<open>
  An \<^verbatim>\<open>async\<close> function that is suspended at an \<^verbatim>\<open>await\<close> is a continuation that runs once,
  when the awaited promise settles. The program counter of each suspended invocation says
  where it waits.
\<close>

datatype ar_pc = AwaitSession | ArDone

datatype ht_pc = AwaitReferenceSpace session | AwaitHitTestSource session | HtDone

datatype click_pc = AwaitChair string | ClickDone

text \<open>
  The frame loop of the library (its \<^verbatim>\<open>WebGLAnimation\<close>; the library is three.js r125,
  line 1, and is not part of the sources). \<^verbatim>\<open>start\<close> requests a frame unless the loop is
  already animating; \<^verbatim>\<open>stop\<close> cancels the request. When the frame comes, the loop calls
  the callback first and requests the next frame afterwards: a callback that throws leaves
  no frame requested, and the loop still counts as animating. The renderer has one such
  loop on the window and one on the XR session.
\<close>

record animation =
  isAnimating :: bool
  requested :: bool

definition start :: "animation \<Rightarrow> animation" where
  "start a = (if isAnimating a then a else \<lparr>isAnimating = True, requested = True\<rparr>)"

definition stop :: "animation \<Rightarrow> animation" where
  "stop a = \<lparr>isAnimating = False, requested = False\<rparr>"

text \<open>The variables one invocation of \<^verbatim>\<open>initAR\<close> closes over (lines 149-150).\<close>

record ar_closure =
  currentSession :: "session option"
  ar_chair :: "ref option"
  ar_pc :: ar_pc

text \<open>
  What a frame answers to \<^verbatim>\<open>frame.getHitTestResults(source)\<close>: for every result of the
  list, what its \<^verbatim>\<open>getPose\<close> returns (the pose's transform matrix, or \<^verbatim>\<open>null\<close>).
\<close>

type_synonym xrframe = "source \<Rightarrow> matrix4 option list"

record app =
  heap :: "ref \<Rightarrow> object3d"
  children :: "ref list"
  environment :: "envmap option"
  reticle :: "ref option"
  hitTestSourceRequested :: bool
  hitTestSource :: "source option"
  chair :: "ref option"
  xrSession :: "session option"
  animationLoop :: "callback option"
  animation :: animation
  xrAnimation :: animation
  isPresenting :: bool
  initARs :: "ar_closure list"
  hitTestTasks :: "ht_pc list"
  clicks :: "click_pc list"
  endListeners :: "(session \<times> listener) list"
  console :: "(string \<times> error) list"
  calls :: "call list"
  unhandled :: "error list"
  uncaught :: "error list"
  rendered :: nat

section \<open>The scene graph and the event targets\<close>

text \<open>
  \<^verbatim>\<open>Object3D.add\<close> detaches the object from where it was and appends it;
  \<^verbatim>\<open>Object3D.remove\<close> takes it out of the children.
\<close>

definition scene_add :: "ref \<Rightarrow> app \<Rightarrow> app" where
  "scene_add r st = st\<lparr>children := removeAll r (children st) @ [r]\<rparr>"

definition scene_remove :: "ref \<Rightarrow> app \<Rightarrow> app" where
  "scene_remove r st = st\<lparr>children := removeAll r (children st)\<rparr>"

text \<open>
  \<^verbatim>\<open>addEventListener\<close> ignores a listener that is already attached;
  \<^verbatim>\<open>removeEventListener\<close> detaches it.
\<close>

definition addEventListener ::
  "session \<Rightarrow> listener \<Rightarrow> (session \<times> listener) list \<Rightarrow> (session \<times> listener) list" where
  "addEventListener s l ls = (if (s, l) \<in> set ls then ls else ls @ [(s, l)])"

definition removeEventListener ::
  "session \<Rightarrow> listener \<Rightarrow> (session \<times> listener) list \<Rightarrow> (session \<times> listener) list" where
  "removeEventListener s l ls = removeAll (s, l) ls"

section \<open>The loaders (lines 33-59 and 132-147)\<close>

text \<open>
  Each loader awaits one fetch inside \<^verbatim>\<open>try\<close>. The model takes the settled fetch and
  returns the settled promise of the \<^verbatim>\<open>async\<close> function with the new state; \<open>None\<close> is
  \<^verbatim>\<open>undefined\<close>. A \<^verbatim>\<open>catch\<close> block that ends without \<^verbatim>\<open>return\<close> makes the function
  return \<^verbatim>\<open>undefined\<close>; \<^verbatim>\<open>setEnvironment\<close> returns \<^verbatim>\<open>undefined\<close> on both paths. The console
  keeps what \<^verbatim>\<open>console.error\<close> was given. The loading bar of \<^verbatim>\<open>loadChair\<close>, a widget
  local to each call, is not part of the state.
\<close>

definition setEnvironment :: "texture settled \<Rightarrow> app \<Rightarrow> unit option settled \<times> app" where
  "setEnvironment fetched st =
     (case fetched of
        Fulfilled t \<Rightarrow> (Fulfilled None, st\<lparr>environment := Some (FromEquirectangular t)\<rparr>)
      | Rejected err \<Rightarrow>
          (Fulfilled None,
           st\<lparr>console := console st @ [(''An error occurred setting the environment'', err)]\<rparr>))"

definition loadReticle :: "ref settled \<Rightarrow> app \<Rightarrow> ref option settled \<times> app" where
  "loadReticle fetched st =
     (case fetched of
        Fulfilled r \<Rightarrow>
          (Fulfilled (Some r),
           scene_add r (st\<lparr>heap := (heap st)(r := (heap st r)\<lparr>visible := False\<rparr>)\<rparr>))
      | Rejected err \<Rightarrow>
          (Fulfilled None,
           st\<lparr>console := console st @ [(''An error occurred loading the reticle'', err)]\<rparr>))"

definition loadChair :: "ref settled \<Rightarrow> app \<Rightarrow> ref option settled \<times> app" where
  "loadChair fetched st =
     (case fetched of
        Fulfilled c \<Rightarrow>
          (Fulfilled (Some c),
           scene_add c (st\<lparr>heap := (heap st)(c := (heap st c)\<lparr>visible := False\<rparr>)\<rparr>))
      | Rejected err \<Rightarrow>
          (Fulfilled None,
           st\<lparr>console := console st @ [(''An error occurred loading the chair'', err)]\<rparr>))"

section \<open>The placement controller (\<^verbatim>\<open>setupXR\<close>, lines 61-130)\<close>

definition setupXR :: "ref \<Rightarrow> ref option \<Rightarrow> app \<Rightarrow> app" where
  "setupXR controller ret st =
     scene_add controller
       (st\<lparr>reticle := ret, hitTestSourceRequested := False, hitTestSource := None,
           chair := None\<rparr>)"

definition setChair :: "ref option \<Rightarrow> app \<Rightarrow> app" where
  "setChair newChair st = st\<lparr>chair := newChair\<rparr>"

text \<open>
  \<^verbatim>\<open>onSelect\<close> (lines 78-83). \<^verbatim>\<open>chair && reticle.visible\<close> reads \<^verbatim>\<open>reticle.visible\<close> only when
  \<^verbatim>\<open>chair\<close> is set; reading a property of \<^verbatim>\<open>undefined\<close> throws a TypeError.
\<close>

definition onSelect :: "app \<Rightarrow> app \<times> completion" where
  "onSelect st =
     (case chair st of
        None \<Rightarrow> (st, Normal)
      | Some c \<Rightarrow>
          (case reticle st of
             None \<Rightarrow> (st, Threw (TypeError ''reticle.visible''))
           | Some r \<Rightarrow>
               if visible (heap st r) then
                 let st1 = st\<lparr>heap := (heap st)
                             (c := (heap st c)
                                \<lparr>position := setFromMatrixPosition (matrix (heap st r))\<rparr>)\<rparr>;
                     st2 = st1\<lparr>heap := (heap st1)(c := (heap st1 c)\<lparr>visible := True\<rparr>)\<rparr>
                 in (st2, Normal)
               else (st, Normal)))"

text \<open>
  \<^verbatim>\<open>requestHitTestSource\<close> (lines 89-100) in its three parts: up to the first \<^verbatim>\<open>await\<close>,
  from there to the second, and the rest. Every invocation is one more entry of
  \<open>hitTestTasks\<close>. The promise it returns is dropped by \<^verbatim>\<open>render\<close> (line 119), so a
  rejection is unhandled. \<^verbatim>\<open>renderer.xr.getSession()\<close> is the session last given to
  \<^verbatim>\<open>renderer.xr.setSession\<close> (line 158).
\<close>

definition requestHitTestSource :: "app \<Rightarrow> app" where
  "requestHitTestSource st =
     (case xrSession st of
        None \<Rightarrow>
          st\<lparr>hitTestTasks := hitTestTasks st @ [HtDone],
             unhandled := unhandled st @ [TypeError ''session.requestReferenceSpace'']\<rparr>
      | Some session \<Rightarrow>
          st\<lparr>hitTestTasks := hitTestTasks st @ [AwaitReferenceSpace session],
             calls := calls st @ [RequestReferenceSpace session]\<rparr>)"

definition resumeReferenceSpace :: "nat \<Rightarrow> unit settled \<Rightarrow> app \<Rightarrow> app" where
  "resumeReferenceSpace i settled st =
     (if i < length (hitTestTasks st) then
        (case hitTestTasks st ! i of
           AwaitReferenceSpace session \<Rightarrow>
             (case settled of
                Fulfilled referenceSpace \<Rightarrow>
                  st\<lparr>hitTestTasks := (hitTestTasks st)[i := AwaitHitTestSource session],
                     calls := calls st @ [RequestHitTestSource session]\<rparr>
              | Rejected err \<Rightarrow>
                  st\<lparr>hitTestTasks := (hitTestTasks st)[i := HtDone],
                     unhandled := unhandled st @ [err]\<rparr>)
         | _ \<Rightarrow> st)
      else st)"

definition resumeHitTestSource :: "nat \<Rightarrow> source settled \<Rightarrow> app \<Rightarrow> app" where
  "resumeHitTestSource i settled st =
     (if i < length (hitTestTasks st) then
        (case hitTestTasks st ! i of
           AwaitHitTestSource session \<Rightarrow>
             (case settled of
                Fulfilled src \<Rightarrow>
                  st\<lparr>hitTestTasks := (hitTestTasks st)[i := HtDone],
                     hitTestSource := Some src,
                     endListeners := addEventListener session (ResetHitTest i) (endListeners st),
                     hitTestSourceRequested := True\<rparr>
              | Rejected err \<Rightarrow>
                  st\<lparr>hitTestTasks := (hitTestTasks st)[i := HtDone],
                     unhandled := unhandled st @ [err]\<rparr>)
         | _ \<Rightarrow> st)
      else st)"

text \<open>\<^verbatim>\<open>getHitTestResults\<close> (lines 102-115).\<close>

definition getHitTestResults :: "xrframe \<Rightarrow> app \<Rightarrow> app \<times> completion" where
  "getHitTestResults frame st =
     (case hitTestSource st of
        None \<Rightarrow> (st, Normal)
      | Some src \<Rightarrow>
          (case frame src of
             pose # rest \<Rightarrow>
               (case reticle st of
                  None \<Rightarrow> (st, Threw (TypeError ''reticle.visible''))
                | Some r \<Rightarrow>
                    let st1 = st\<lparr>heap := (heap st)(r := (heap st r)\<lparr>visible := True\<rparr>)\<rparr>
                    in (case pose of
                          None \<Rightarrow> (st1, Threw (TypeError ''pose.transform''))
                        | Some m \<Rightarrow>
                            (st1\<lparr>heap := (heap st1)(r := (heap st1 r)\<lparr>matrix := fromArray m\<rparr>)\<rparr>,
                             Normal)))
           | [] \<Rightarrow>
               (case reticle st of
                  None \<Rightarrow> (st, Threw (TypeError ''reticle.visible''))
                | Some r \<Rightarrow>
                    (st\<lparr>heap := (heap st)(r := (heap st r)\<lparr>visible := False\<rparr>)\<rparr>, Normal))))"

text \<open>
  The names each scope of the source declares. \<^verbatim>\<open>render\<close> (lines 117-127) is nested in
  \<^verbatim>\<open>setupXR\<close>, which is declared at module level; \<^verbatim>\<open>initApp\<close> is a sibling of
  \<^verbatim>\<open>setupXR\<close>, so its locals are not on \<^verbatim>\<open>render\<close>'s scope chain. The last scope of the
  chain is the host's global object, which the sources do not determine.
\<close>

definition module_scope :: "string list" where
  "module_scope =
     [''THREE'', ''GLTFLoader'', ''RGBELoader'', ''LoadingBar'', ''assetsPath'', ''hdrPath'',
      ''reticlePath'', ''initScene'', ''initCamera'', ''initRenderer'', ''setEnvironment'',
      ''loadReticle'', ''setupXR'', ''loadChair'', ''initAR'', ''initApp'']"

definition setupXR_scope :: "string list" where
  "setupXR_scope =
     [''renderer'', ''scene'', ''reticle'', ''hitTestSourceRequested'', ''hitTestSource'',
      ''chair'', ''onSelect'', ''controller'', ''requestHitTestSource'', ''getHitTestResults'',
      ''render'']"

definition render_scope :: "string list" where
  "render_scope = [''timestamp'', ''frame'']"

definition initApp_scope :: "string list" where
  "initApp_scope =
     [''container'', ''scene'', ''camera'', ''renderer'', ''reticle'', ''render'', ''setChair'']"

definition render_chain :: "string list \<Rightarrow> string list list" where
  "render_chain globals = [render_scope, setupXR_scope, module_scope, globals]"

definition resolves :: "string list list \<Rightarrow> string \<Rightarrow> bool" where
  "resolves chain name = (name \<in> set (concat chain))"

text \<open>
  What \<^verbatim>\<open>renderer.render\<close> of the library does to the state, once it is called: it
  updates the matrices of the objects of the scene and draws; \<open>rendered\<close> counts the
  completed calls.
\<close>

definition renderer_render :: "app \<Rightarrow> app" where
  "renderer_render st =
     st\<lparr>heap := (\<lambda>r. if r \<in> set (children st) then updateMatrix (heap st r) else heap st r),
        rendered := rendered st + 1\<rparr>"

text \<open>
  \<^verbatim>\<open>render\<close> (lines 117-127). The call of \<^verbatim>\<open>requestHitTestSource\<close> is not awaited; an
  exception of \<^verbatim>\<open>getHitTestResults\<close> leaves \<^verbatim>\<open>render\<close> at once; the arguments of
  \<^verbatim>\<open>renderer.render(scene, camera)\<close> are evaluated before the call, and an identifier that
  no scope binds throws a ReferenceError.
\<close>

definition render :: "string list \<Rightarrow> xrframe option \<Rightarrow> app \<Rightarrow> app \<times> completion" where
  "render globals frame st =
     (let st1 = (if frame \<noteq> None \<and> \<not> hitTestSourceRequested st
                 then requestHitTestSource st else st)
      in case (case frame of None \<Rightarrow> (st1, Normal) | Some f \<Rightarrow> getHitTestResults f st1) of
           (st2, Threw err) \<Rightarrow> (st2, Threw err)
         | (st2, Normal) \<Rightarrow>
             if resolves (render_chain globals) ''camera''
             then (renderer_render st2, Normal)
             else (st2, Threw (ReferenceError ''camera'')))"

section \<open>The session lifecycle controller (\<^verbatim>\<open>initAR\<close>, lines 149-183)\<close>

text \<open>
  \<^verbatim>\<open>initAR\<close> up to its \<^verbatim>\<open>await\<close> (line 178): a new closure whose \<^verbatim>\<open>currentSession\<close> is
  \<^verbatim>\<open>null\<close> (line 150), then the test of line 177 on that variable.
\<close>

definition initAR :: "ref option \<Rightarrow> app \<Rightarrow> app" where
  "initAR chairArg st =
     (let k = length (initARs st);
          c = \<lparr>currentSession = None, ar_chair = chairArg, ar_pc = ArDone\<rparr>
      in case currentSession c of
           None \<Rightarrow>
             st\<lparr>initARs := initARs st @ [c\<lparr>ar_pc := AwaitSession\<rparr>],
                calls := calls st @ [RequestSession k]\<rparr>
         | Some cs \<Rightarrow>
             st\<lparr>initARs := initARs st @ [c], calls := calls st @ [EndSession cs]\<rparr>)"

text \<open>
  \<^verbatim>\<open>renderer.setAnimationLoop\<close> and \<^verbatim>\<open>renderer.xr.setSession\<close> of the library. The first
  stores the callback for both loops and starts or stops the window loop; the second
  stores the session, attaches the library's \<^verbatim>\<open>'end'\<close> listener and starts the XR loop.
  The library starts the XR loop once the host has answered the library's own request for
  the reference space; here the loop is started with the session, and its first frame may
  come at any time after that.
\<close>

definition setAnimationLoop :: "callback option \<Rightarrow> app \<Rightarrow> app" where
  "setAnimationLoop cb st =
     st\<lparr>animationLoop := cb,
        animation := (case cb of None \<Rightarrow> stop (animation st) | Some c \<Rightarrow> start (animation st))\<rparr>"

definition setSession :: "session \<Rightarrow> app \<Rightarrow> app" where
  "setSession session st =
     st\<lparr>xrSession := Some session,
        endListeners := addEventListener session ManagerEnd (endListeners st),
        xrAnimation := start (xrAnimation st),
        isPresenting := True\<rparr>"

text \<open>\<^verbatim>\<open>onSessionStarted\<close> (lines 154-161).\<close>

definition onSessionStarted :: "nat \<Rightarrow> session \<Rightarrow> app \<Rightarrow> app" where
  "onSessionStarted k session st =
     (let st1 = st\<lparr>endListeners :=
                    addEventListener session (OnSessionEnded k) (endListeners st)\<rparr>;
          st2 = setSession session st1
      in st2\<lparr>initARs := (initARs st2)[k := (initARs st2 ! k)\<lparr>currentSession := Some session\<rparr>]\<rparr>)"

text \<open>\<^verbatim>\<open>onSessionEnded\<close> (lines 163-175).\<close>

definition onSessionEnded :: "nat \<Rightarrow> app \<Rightarrow> app" where
  "onSessionEnded k st =
     (if k < length (initARs st) then
        (case currentSession (initARs st ! k) of
           None \<Rightarrow> st
         | Some cs \<Rightarrow>
             let st1 = st\<lparr>endListeners :=
                           removeEventListener cs (OnSessionEnded k) (endListeners st)\<rparr>;
                 st2 = st1\<lparr>initARs := (initARs st1)[k := (initARs st1 ! k)\<lparr>currentSession := None\<rparr>]\<rparr>;
                 st3 = (case ar_chair (initARs st2 ! k) of
                          None \<Rightarrow> st2
                        | Some ch \<Rightarrow>
                            (scene_remove ch st2)
                              \<lparr>initARs := (initARs st2)[k := (initARs st2 ! k)\<lparr>ar_chair := None\<rparr>]\<rparr>)
             in setAnimationLoop None st3)
      else st)"

text \<open>
  \<^verbatim>\<open>initAR\<close> after its \<^verbatim>\<open>await\<close> (lines 178-179): there is no \<^verbatim>\<open>try\<close> around it, so a
  rejected request rejects the promise of \<^verbatim>\<open>initAR\<close>. The result is that promise.
\<close>

definition initAR_resume :: "nat \<Rightarrow> session settled \<Rightarrow> app \<Rightarrow> unit settled \<times> app" where
  "initAR_resume k settled st =
     (if k < length (initARs st) \<and> ar_pc (initARs st ! k) = AwaitSession then
        let st1 = st\<lparr>initARs := (initARs st)[k := (initARs st ! k)\<lparr>ar_pc := ArDone\<rparr>]\<rparr>
        in (case settled of
              Fulfilled session \<Rightarrow> (Fulfilled (), onSessionStarted k session st1)
            | Rejected err \<Rightarrow> (Rejected err, st1))
      else (Fulfilled (), st))"

section \<open>The application (\<^verbatim>\<open>initApp\<close>, lines 185-212) and its events\<close>

text \<open>
  \<^verbatim>\<open>initApp\<close> up to the registration of the handlers: the scene with its light
  (\<^verbatim>\<open>initScene\<close>, lines 10-16, here with the initial values of all the variables of the
  program), the environment, the reticle, \<^verbatim>\<open>setupXR\<close> with whatever \<^verbatim>\<open>loadReticle\<close>
  returned. The store \<open>h\<close> holds the objects the loaders and the library will hand out.
  The camera and the resize handler touch nothing the later sections speak of.
\<close>

definition initScene :: "(ref \<Rightarrow> object3d) \<Rightarrow> ref \<Rightarrow> app" where
  "initScene h ambient =
     \<lparr>heap = h(ambient := (h ambient)\<lparr>position := \<lparr>vx = 1 / 2, vy = 1, vz = 1 / 4\<rparr>\<rparr>),
      children = [ambient], environment = None, reticle = None,
      hitTestSourceRequested = False, hitTestSource = None, chair = None, xrSession = None,
      animationLoop = None, animation = \<lparr>isAnimating = False, requested = False\<rparr>,
      xrAnimation = \<lparr>isAnimating = False, requested = False\<rparr>, isPresenting = False,
      initARs = [], hitTestTasks = [], clicks = [], endListeners = [],
      console = [], calls = [], unhandled = [], uncaught = [], rendered = 0\<rparr>"

definition initApp ::
  "(ref \<Rightarrow> object3d) \<Rightarrow> ref \<Rightarrow> ref \<Rightarrow> texture settled \<Rightarrow> ref settled \<Rightarrow> app" where
  "initApp h ambient controller envFetched reticleFetched =
     (case setEnvironment envFetched (initScene h ambient) of
        (p1, st1) \<Rightarrow>
          (case loadReticle reticleFetched st1 of
             (Fulfilled ret, st2) \<Rightarrow> setupXR controller ret st2
           | (Rejected err, st2) \<Rightarrow> st2\<lparr>unhandled := unhandled st2 @ [err]\<rparr>))"

text \<open>
  The click handler (lines 204-210): up to the \<^verbatim>\<open>await\<close> inside \<^verbatim>\<open>loadChair\<close>, and from
  there on. The promise of \<^verbatim>\<open>initAR\<close> is dropped (line 208).
\<close>

definition click :: "string \<Rightarrow> app \<Rightarrow> app" where
  "click chairId st = st\<lparr>clicks := clicks st @ [AwaitChair chairId]\<rparr>"

definition click_resume :: "nat \<Rightarrow> ref settled \<Rightarrow> app \<Rightarrow> app" where
  "click_resume i fetched st =
     (if i < length (clicks st) \<and> clicks st ! i \<noteq> ClickDone then
        (case loadChair fetched (st\<lparr>clicks := (clicks st)[i := ClickDone]\<rparr>) of
           (Fulfilled ch, st1) \<Rightarrow> setAnimationLoop (Some Render) (initAR ch (setChair ch st1))
         | (Rejected err, st1) \<Rightarrow> st1\<lparr>unhandled := unhandled st1 @ [err]\<rparr>)
      else st)"

text \<open>
  The \<^verbatim>\<open>'end'\<close> event of a session runs the listeners attached to it, in the order they
  were attached, skipping one that was detached meanwhile.
\<close>

fun invoke :: "listener \<Rightarrow> app \<Rightarrow> app" where
  "invoke (OnSessionEnded k) st = onSessionEnded k st"
| "invoke (ResetHitTest i) st = st\<lparr>hitTestSourceRequested := False, hitTestSource := None\<rparr>"
| "invoke ManagerEnd st = st\<lparr>xrAnimation := stop (xrAnimation st), isPresenting := False\<rparr>"

fun dispatch :: "session \<Rightarrow> listener list \<Rightarrow> app \<Rightarrow> app" where
  "dispatch s [] st = st"
| "dispatch s (l # ls) st =
     dispatch s ls (if (s, l) \<in> set (endListeners st) then invoke l st else st)"

definition sessionEnd :: "session \<Rightarrow> app \<Rightarrow> app" where
  "sessionEnd s st = dispatch s (map snd (filter (\<lambda>sl. fst sl = s) (endListeners st))) st"

text \<open>
  A frame reaches \<^verbatim>\<open>render\<close> when the loop it comes from has a frame requested and the
  callback is set: a frame with XR data comes from the XR loop, one without from the
  window loop, which calls nothing while a session is presenting.
\<close>

definition delivers :: "app \<Rightarrow> xrframe option \<Rightarrow> bool" where
  "delivers st frame =
     (animationLoop st = Some Render \<and>
      (case frame of
         Some f \<Rightarrow> requested (xrAnimation st)
       | None \<Rightarrow> requested (animation st) \<and> \<not> isPresenting st))"

text \<open>
  An exception that leaves \<^verbatim>\<open>render\<close> leaves the loop too: the next frame is not
  requested. The exception ends up uncaught.
\<close>

definition frame_event :: "string list \<Rightarrow> xrframe option \<Rightarrow> app \<Rightarrow> app" where
  "frame_event g frame st =
     (if delivers st frame then
        (case render g frame st of
           (st1, Normal) \<Rightarrow> st1
         | (st1, Threw err) \<Rightarrow>
             (case frame of
                Some f \<Rightarrow>
                  st1\<lparr>xrAnimation := (xrAnimation st1)\<lparr>requested := False\<rparr>,
                      uncaught := uncaught st1 @ [err]\<rparr>
              | None \<Rightarrow>
                  st1\<lparr>animation := (animation st1)\<lparr>requested := False\<rparr>,
                      uncaught := uncaught st1 @ [err]\<rparr>))
      else st)"

definition select_event :: "app \<Rightarrow> app" where
  "select_event st =
     (case onSelect st of
        (st1, Normal) \<Rightarrow> st1
      | (st1, Threw err) \<Rightarrow> st1\<lparr>uncaught := uncaught st1 @ [err]\<rparr>)"

text \<open>
  What can happen to the running application: a click, the settling of a promise some
  invocation awaits, the end of a session, a frame (with or without XR frame data), a
  \<^verbatim>\<open>'select'\<close> of the controller.
\<close>

datatype event =
    Click string
  | ChairSettled nat "ref settled"
  | SessionSettled nat "session settled"
  | SessionEnd session
  | Frame "xrframe option"
  | ReferenceSpaceSettled nat "unit settled"
  | HitTestSourceSettled nat "source settled"
  | Select

fun step :: "string list \<Rightarrow> app \<Rightarrow> event \<Rightarrow> app" where
  "step g st (Click chairId) = click chairId st"
| "step g st (ChairSettled i fetched) = click_resume i fetched st"
| "step g st (SessionSettled k settled) =
     (case initAR_resume k settled st of
        (Fulfilled u, st1) \<Rightarrow> st1
      | (Rejected err, st1) \<Rightarrow> st1\<lparr>unhandled := unhandled st1 @ [err]\<rparr>)"
| "step g st (SessionEnd s) = sessionEnd s st"
| "step g st (Frame frame) = frame_event g frame st"
| "step g st (ReferenceSpaceSettled i settled) = resumeReferenceSpace i settled st"
| "step g st (HitTestSourceSettled i settled) = resumeHitTestSource i settled st"
| "step g st Select = select_event st"

fun run :: "string list \<Rightarrow> app \<Rightarrow> event list \<Rightarrow> app" where
  "run g st [] = st"
| "run g st (e # es) = run g (step g st e) es"

section \<open>The host\<close>

text \<open>
  An invocation of \<^verbatim>\<open>initAR\<close> holds a session from the moment the host grants it until its
  \<^verbatim>\<open>'end'\<close> event. A suspended invocation of \<^verbatim>\<open>requestHitTestSource\<close> waits for an answer
  about the session it read.
\<close>

definition held :: "app \<Rightarrow> session \<Rightarrow> bool" where
  "held st s = (Some s \<in> set (map currentSession (initARs st)))"

fun pending :: "ht_pc \<Rightarrow> session option" where
  "pending (AwaitReferenceSpace s) = Some s"
| "pending (AwaitHitTestSource s) = Some s"
| "pending HtDone = None"

text \<open>
  What a WebXR host does not do: it grants no immersive session while the program still
  holds one; the session it grants is a new one, about which no request can be pending;
  and it gives no hit-test source for a session the program no longer holds. Every other
  event, and every rejection, is left to the host.
\<close>

fun host_ok :: "app \<Rightarrow> event \<Rightarrow> bool" where
  "host_ok st (SessionSettled k (Fulfilled s)) =
     ((\<forall>c \<in> set (initARs st). currentSession c = None) \<and>
      Some s \<notin> set (map pending (hitTestTasks st)))"
| "host_ok st (HitTestSourceSettled i (Fulfilled src)) =
     (if i < length (hitTestTasks st)
      then (case hitTestTasks st ! i of AwaitHitTestSource s \<Rightarrow> held st s | _ \<Rightarrow> True)
      else True)"
| "host_ok st e = True"

fun admissible :: "string list \<Rightarrow> app \<Rightarrow> event list \<Rightarrow> bool" where
  "admissible g st [] = True"
| "admissible g st (e # es) = (host_ok st e \<and> admissible g (step g st e) es)"


section \<open>Reachable states and sample runs\<close>

text \<open>
  What holds of the \<^verbatim>\<open>'end'\<close> listeners in every state the application reaches:
  \<^verbatim>\<open>onSessionEnded\<close> of an invocation of \<^verbatim>\<open>initAR\<close> is attached to a session exactly
  while that invocation's \<^verbatim>\<open>currentSession\<close> holds that session, and an invocation that
  still waits for its session holds none.
\<close>

definition listeners_agree :: "app \<Rightarrow> bool" where
  "listeners_agree st \<longleftrightarrow>
     (\<forall>s k. (s, OnSessionEnded k) \<in> set (endListeners st) \<longrightarrow>
        k < length (initARs st) \<and> currentSession (initARs st ! k) = Some s) \<and>
     (\<forall>k < length (initARs st).
        (ar_pc (initARs st ! k) = AwaitSession \<longrightarrow> currentSession (initARs st ! k) = None) \<and>
        (\<forall>s. currentSession (initARs st ! k) = Some s \<longrightarrow>
           (s, OnSessionEnded k) \<in> set (endListeners st)))"

text \<open>
  What \<^verbatim>\<open>onSessionEnded\<close> of invocation \<open>k\<close> leaves behind: no session reference,
  no object reference, the object \<open>ch\<close> it held out of the scene, no render callback.
\<close>

definition session_ended :: "nat \<Rightarrow> ref option \<Rightarrow> app \<Rightarrow> bool" where
  "session_ended k ch st \<longleftrightarrow>
     currentSession (initARs st ! k) = None \<and> ar_chair (initARs st ! k) = None \<and>
     (\<forall>ob. ch = Some ob \<longrightarrow> ob \<notin> set (children st)) \<and> animationLoop st = None"

text \<open>
  What holds of the hit-test source on a host as above, where \<^verbatim>\<open>render\<close> always throws:
  a source is held only while a session is held that carries the listener which drops
  it; and while the XR loop has a frame requested, no source is held and no request about
  a held session is pending.
\<close>

definition source_guarded :: "app \<Rightarrow> bool" where
  "source_guarded st \<longleftrightarrow>
     (hitTestSource st \<noteq> None \<longrightarrow>
        (\<exists>s i. held st s \<and> (s, ResetHitTest i) \<in> set (endListeners st))) \<and>
     (requested (xrAnimation st) \<longrightarrow>
        hitTestSource st = None \<and>
        (\<forall>t \<in> set (hitTestTasks st). \<forall>s. pending t = Some s \<longrightarrow> \<not> held st s))"

definition marker_hidden :: "app \<Rightarrow> bool" where
  "marker_hidden st \<longleftrightarrow> (\<forall>r. reticle st = Some r \<longrightarrow> \<not> visible (heap st r))"

text \<open>
  Sample objects and runs. A new \<^verbatim>\<open>Object3D\<close> is at the origin, unrotated, unscaled,
  visible, with the identity matrix. The library's hemisphere light is created at
  (0, 1, 0) with its matrix updated; the controller it hands out is hidden and keeps its
  matrix. The application is started with the light at address 0 and the controller at
  address 1; a click loads the chair at address 10 and is granted session 1.
\<close>

definition newObject3D :: object3d where
  "newObject3D =
     \<lparr>position = \<lparr>vx = 0, vy = 0, vz = 0\<rparr>, quaternion = (0, 0, 0, 1),
      scale = \<lparr>vx = 1, vy = 1, vz = 1\<rparr>, visible = True,
      matrix = ((1, 0, 0, 0), (0, 1, 0, 0), (0, 0, 1, 0), (0, 0, 0, 1)),
      matrixAutoUpdate = True\<rparr>"

definition sample_store :: "ref \<Rightarrow> object3d" where
  "sample_store r =
     (if r = 0 then
        newObject3D\<lparr>position := \<lparr>vx = 0, vy = 1, vz = 0\<rparr>,
                    matrix := ((1, 0, 0, 0), (0, 1, 0, 0), (0, 0, 1, 0), (0, 1, 0, 1))\<rparr>
      else if r = 1 then newObject3D\<lparr>visible := False, matrixAutoUpdate := False\<rparr>
      else newObject3D)"

definition started :: "ref settled \<Rightarrow> app" where
  "started reticleFetched = initApp sample_store 0 1 (Fulfilled 0) reticleFetched"

definition enter_ar :: "event list" where
  "enter_ar = [Click ''3'', ChairSettled 0 (Fulfilled 10), SessionSettled 0 (Fulfilled 1)]"

definition hit_at :: "real \<Rightarrow> real \<Rightarrow> real \<Rightarrow> xrframe" where
  "hit_at a b c = (\<lambda>src. [Some ((1, 0, 0, 0), (0, 1, 0, 0), (0, 0, 1, 0), (a, b, c, 1))])"

text \<open>
  A state in which a hit-test source is held, for the statements about
  \<^verbatim>\<open>getHitTestResults\<close> and \<^verbatim>\<open>onSelect\<close> that speak of one: after the first click,
  the first frame of the session requests the source (and \<^verbatim>\<open>render\<close> throws at line 126),
  and the host answers both requests, with source 4. \<open>surface_found\<close> is what a query
  that finds a surface at (1, 2, 3) makes of that state.
\<close>

definition acquire_source :: "event list" where
  "acquire_source =
     [Frame (Some (hit_at 1 2 3)), ReferenceSpaceSettled 0 (Fulfilled ()),
      HitTestSourceSettled 0 (Fulfilled 4)]"

definition with_source :: "ref settled \<Rightarrow> app" where
  "with_source reticleFetched = run [] (started reticleFetched) (enter_ar @ acquire_source)"

definition surface_found :: app where
  "surface_found = fst (getHitTestResults (hit_at 1 2 3) (with_source (Fulfilled 2)))"

section \<open>Evaluation of sample runs\<close>

lemmas app_defs =
  started_def enter_ar_def acquire_source_def with_source_def surface_found_def hit_at_def
  newObject3D_def sample_store_def
  initApp_def initScene_def setEnvironment_def loadReticle_def
  loadChair_def setupXR_def setChair_def scene_add_def scene_remove_def
  addEventListener_def removeEventListener_def
  click_def click_resume_def initAR_def initAR_resume_def onSessionStarted_def
  onSessionEnded_def sessionEnd_def setAnimationLoop_def setSession_def start_def stop_def
  delivers_def frame_event_def select_event_def held_def
  requestHitTestSource_def resumeReferenceSpace_def resumeHitTestSource_def
  getHitTestResults_def fromArray_def setFromMatrixPosition_def onSelect_def
  render_def resolves_def render_chain_def render_scope_def setupXR_scope_def module_scope_def
  Let_def

section \<open>The end listeners in reachable states\<close>

lemma agree_transfer:
  assumes "listeners_agree st" and "initARs st' = initARs st"
    and "endListeners st' = endListeners st"
  shows "listeners_agree st'"
proof -
  have "listeners_agree st' = listeners_agree st"
    unfolding listeners_agree_def by (simp only: assms(2,3))
  with assms(1) show ?thesis by (simp only:)
qed

lemma listeners_agreeI:
  assumes "\<And>s k. (s, OnSessionEnded k) \<in> set (endListeners st) \<Longrightarrow>
             k < length (initARs st) \<and> currentSession (initARs st ! k) = Some s"
    and "\<And>k. k < length (initARs st) \<Longrightarrow> ar_pc (initARs st ! k) = AwaitSession \<Longrightarrow>
             currentSession (initARs st ! k) = None"
    and "\<And>k s. k < length (initARs st) \<Longrightarrow> currentSession (initARs st ! k) = Some s \<Longrightarrow>
             (s, OnSessionEnded k) \<in> set (endListeners st)"
  shows "listeners_agree st"
  unfolding listeners_agree_def using assms by blast

lemma agree_listenerD:
  "listeners_agree st \<Longrightarrow> (s, OnSessionEnded k) \<in> set (endListeners st) \<Longrightarrow>
   k < length (initARs st) \<and> currentSession (initARs st ! k) = Some s"
  unfolding listeners_agree_def by blast

lemma agree_awaitD:
  "listeners_agree st \<Longrightarrow> k < length (initARs st) \<Longrightarrow> ar_pc (initARs st ! k) = AwaitSession \<Longrightarrow>
   currentSession (initARs st ! k) = None"
  unfolding listeners_agree_def by blast

lemma agree_heldD:
  "listeners_agree st \<Longrightarrow> k < length (initARs st) \<Longrightarrow> currentSession (initARs st ! k) = Some s \<Longrightarrow>
   (s, OnSessionEnded k) \<in> set (endListeners st)"
  unfolding listeners_agree_def by blast

lemma onSessionEnded_idle:
  "\<not> k < length (initARs st) \<or> currentSession (initARs st ! k) = None \<Longrightarrow>
   onSessionEnded k st = st"
  by (auto simp: onSessionEnded_def)

lemma onSessionEnded_held_listeners:
  "k < length (initARs st) \<Longrightarrow> currentSession (initARs st ! k) = Some cs \<Longrightarrow>
   endListeners (onSessionEnded k st) = removeAll (cs, OnSessionEnded k) (endListeners st)"
  by (simp add: onSessionEnded_def Let_def scene_remove_def setAnimationLoop_def removeEventListener_def
      split: option.splits)

lemma onSessionEnded_length:
  "length (initARs (onSessionEnded k st)) = length (initARs st)"
  by (simp add: onSessionEnded_def Let_def scene_remove_def setAnimationLoop_def split: option.splits)

lemma onSessionEnded_other:
  "j \<noteq> k \<Longrightarrow> initARs (onSessionEnded k st) ! j = initARs st ! j"
  by (simp add: onSessionEnded_def Let_def scene_remove_def setAnimationLoop_def split: option.splits)

lemma onSessionEnded_held_closure:
  "k < length (initARs st) \<Longrightarrow> currentSession (initARs st ! k) = Some cs \<Longrightarrow>
   currentSession (initARs (onSessionEnded k st) ! k) = None \<and>
   ar_chair (initARs (onSessionEnded k st) ! k) = None \<and>
   ar_pc (initARs (onSessionEnded k st) ! k) = ar_pc (initARs st ! k)"
  by (simp add: onSessionEnded_def Let_def scene_remove_def setAnimationLoop_def split: option.splits)



lemma agree_onSessionEnded:
  assumes a: "listeners_agree st"
  shows "listeners_agree (onSessionEnded j st)"
proof (cases "j < length (initARs st) \<and> currentSession (initARs st ! j) \<noteq> None")
  case False
  then have "onSessionEnded j st = st"
    by (intro onSessionEnded_idle) auto
  with a show ?thesis by simp
next
  case True
  then obtain cs where j: "j < length (initARs st)"
    and cs: "currentSession (initARs st ! j) = Some cs"
    by auto
  note ls = onSessionEnded_held_listeners [OF j cs]
  note cl = onSessionEnded_held_closure [OF j cs]
  show ?thesis
  proof (rule listeners_agreeI)
    fix s k
    assume "(s, OnSessionEnded k) \<in> set (endListeners (onSessionEnded j st))"
    with ls have in_st: "(s, OnSessionEnded k) \<in> set (endListeners st)"
      and ne: "(s, OnSessionEnded k) \<noteq> (cs, OnSessionEnded j)"
      by auto
    from agree_listenerD [OF a in_st] have k: "k < length (initARs st)"
      and ks: "currentSession (initARs st ! k) = Some s"
      by auto
    from ne ks cs have "k \<noteq> j" by auto
    with k ks show "k < length (initARs (onSessionEnded j st)) \<and>
        currentSession (initARs (onSessionEnded j st) ! k) = Some s"
      by (simp add: onSessionEnded_length onSessionEnded_other)
  next
    fix k
    assume k: "k < length (initARs (onSessionEnded j st))"
      and pc: "ar_pc (initARs (onSessionEnded j st) ! k) = AwaitSession"
    show "currentSession (initARs (onSessionEnded j st) ! k) = None"
    proof (cases "k = j")
      case True
      with cl show ?thesis by simp
    next
      case False
      with k pc agree_awaitD [OF a, of k] show ?thesis
        by (simp add: onSessionEnded_length onSessionEnded_other)
    qed
  next
    fix k s
    assume k: "k < length (initARs (onSessionEnded j st))"
      and ks: "currentSession (initARs (onSessionEnded j st) ! k) = Some s"
    from ks cl have ne: "k \<noteq> j" by auto
    with k ks agree_heldD [OF a, of k s]
    have "(s, OnSessionEnded k) \<in> set (endListeners st)"
      by (simp add: onSessionEnded_length onSessionEnded_other)
    with ne ls show "(s, OnSessionEnded k) \<in> set (endListeners (onSessionEnded j st))"
      by simp
  qed
qed

lemma agree_invoke: "listeners_agree st \<Longrightarrow> listeners_agree (invoke l st)"
proof (cases l)
  case (OnSessionEnded k)
  then show "listeners_agree st \<Longrightarrow> ?thesis" by (simp add: agree_onSessionEnded)
next
  case (ResetHitTest i)
  assume "listeners_agree st"
  then have "listeners_agree (st\<lparr>hitTestSourceRequested := False, hitTestSource := None\<rparr>)"
    by (rule agree_transfer) simp_all
  with ResetHitTest show ?thesis by simp
next
  case ManagerEnd
  assume "listeners_agree st"
  then have "listeners_agree (st\<lparr>xrAnimation := stop (xrAnimation st), isPresenting := False\<rparr>)"
    by (rule agree_transfer) simp_all
  with ManagerEnd show ?thesis by simp
qed

lemma agree_dispatch: "listeners_agree st \<Longrightarrow> listeners_agree (dispatch s ls st)"
  by (induction ls arbitrary: st) (simp_all add: agree_invoke)

lemma initAR_closures:
  "initARs (initAR ch st) =
     initARs st @ [\<lparr>currentSession = None, ar_chair = ch, ar_pc = AwaitSession\<rparr>]"
  by (simp add: initAR_def Let_def)

lemma initAR_listeners: "endListeners (initAR ch st) = endListeners st"
  by (simp add: initAR_def Let_def)

lemma agree_initAR:
  assumes a: "listeners_agree st"
  shows "listeners_agree (initAR ch st)"
proof (rule listeners_agreeI)
  fix s k
  assume "(s, OnSessionEnded k) \<in> set (endListeners (initAR ch st))"
  then have "(s, OnSessionEnded k) \<in> set (endListeners st)"
    by (simp add: initAR_listeners)
  from agree_listenerD [OF a this]
  show "k < length (initARs (initAR ch st)) \<and>
      currentSession (initARs (initAR ch st) ! k) = Some s"
    by (simp add: initAR_closures nth_append)
next
  fix k
  assume "k < length (initARs (initAR ch st))"
    and "ar_pc (initARs (initAR ch st) ! k) = AwaitSession"
  with agree_awaitD [OF a, of k]
  show "currentSession (initARs (initAR ch st) ! k) = None"
    by (cases "k < length (initARs st)") (simp_all add: initAR_closures nth_append)
next
  fix k s
  assume "k < length (initARs (initAR ch st))"
    and "currentSession (initARs (initAR ch st) ! k) = Some s"
  with agree_heldD [OF a, of k s]
  show "(s, OnSessionEnded k) \<in> set (endListeners (initAR ch st))"
    by (cases "k < length (initARs st)")
       (simp_all add: initAR_closures initAR_listeners nth_append)
qed

lemma click_resume_closures:
  "initARs (click_resume i f st) = initARs st \<and> endListeners (click_resume i f st) = endListeners st
   \<or> (\<exists>ch st1. initARs st1 = initARs st \<and> endListeners st1 = endListeners st \<and>
         initARs (click_resume i f st) = initARs (initAR ch st1) \<and>
         endListeners (click_resume i f st) = endListeners (initAR ch st1))"
proof (cases "i < length (clicks st) \<and> clicks st ! i \<noteq> ClickDone")
  case False
  then show ?thesis by (auto simp: click_resume_def)
next
  case True
  show ?thesis
  proof (cases f)
    case (Fulfilled c)
    let ?st1 = "setChair (Some c) (snd (loadChair f (st\<lparr>clicks := (clicks st)[i := ClickDone]\<rparr>)))"
    have "initARs ?st1 = initARs st" "endListeners ?st1 = endListeners st"
      by (simp_all add: Fulfilled setChair_def loadChair_def scene_add_def)
    moreover have "click_resume i f st = setAnimationLoop (Some Render) (initAR (Some c) ?st1)"
      using True by (simp add: Fulfilled click_resume_def loadChair_def)
    ultimately show ?thesis
      by (intro disjI2 exI [of _ "Some c"] exI [of _ ?st1]) (simp add: setAnimationLoop_def)
  next
    case (Rejected err)
    let ?st1 = "setChair None (snd (loadChair f (st\<lparr>clicks := (clicks st)[i := ClickDone]\<rparr>)))"
    have "initARs ?st1 = initARs st" "endListeners ?st1 = endListeners st"
      by (simp_all add: Rejected setChair_def loadChair_def)
    moreover have "click_resume i f st = setAnimationLoop (Some Render) (initAR None ?st1)"
      using True by (simp add: Rejected click_resume_def loadChair_def)
    ultimately show ?thesis
      by (intro disjI2 exI [of _ None] exI [of _ ?st1]) (simp add: setAnimationLoop_def)
  qed
qed

lemma agree_click_resume:
  assumes a: "listeners_agree st"
  shows "listeners_agree (click_resume i f st)"
  using click_resume_closures [of i f st]
proof (elim disjE exE conjE)
  assume "initARs (click_resume i f st) = initARs st"
    and "endListeners (click_resume i f st) = endListeners st"
  with a show ?thesis by (rule agree_transfer)
next
  fix ch st1
  assume 1: "initARs st1 = initARs st" "endListeners st1 = endListeners st"
    and 2: "initARs (click_resume i f st) = initARs (initAR ch st1)"
      "endListeners (click_resume i f st) = endListeners (initAR ch st1)"
  from a 1 have "listeners_agree st1" by (rule agree_transfer)
  then have "listeners_agree (initAR ch st1)" by (rule agree_initAR)
  from this 2 show ?thesis by (rule agree_transfer)
qed

lemma onSessionStarted_closures:
  "k < length (initARs st) \<Longrightarrow>
   length (initARs (onSessionStarted k s st)) = length (initARs st) \<and>
   currentSession (initARs (onSessionStarted k s st) ! k) = Some s \<and>
   ar_pc (initARs (onSessionStarted k s st) ! k) = ar_pc (initARs st ! k) \<and>
   (\<forall>j. j \<noteq> k \<longrightarrow> initARs (onSessionStarted k s st) ! j = initARs st ! j)"
  by (simp add: onSessionStarted_def setSession_def Let_def)

lemma onSessionStarted_listeners:
  "set (endListeners (onSessionStarted k s st)) =
     insert (s, ManagerEnd) (insert (s, OnSessionEnded k) (set (endListeners st)))"
  by (auto simp: onSessionStarted_def setSession_def addEventListener_def Let_def)

lemma agree_started:
  assumes a: "listeners_agree st" and k: "k < length (initARs st)"
    and idle: "currentSession (initARs st ! k) = None"
    and pc: "ar_pc (initARs st ! k) \<noteq> AwaitSession"
  shows "listeners_agree (onSessionStarted k s st)"
proof (rule listeners_agreeI)
  note cl = onSessionStarted_closures [OF k, of s]
  fix s' j
  assume "(s', OnSessionEnded j) \<in> set (endListeners (onSessionStarted k s st))"
  then consider "s' = s" and "j = k" | "(s', OnSessionEnded j) \<in> set (endListeners st)"
    by (auto simp: onSessionStarted_listeners)
  then show "j < length (initARs (onSessionStarted k s st)) \<and>
      currentSession (initARs (onSessionStarted k s st) ! j) = Some s'"
  proof cases
    case 1
    with cl k show ?thesis by simp
  next
    case 2
    from agree_listenerD [OF a 2] have j: "j < length (initARs st)"
      and js: "currentSession (initARs st ! j) = Some s'"
      by auto
    from js idle have "j \<noteq> k" by auto
    with cl j js show ?thesis by simp
  qed
next
  note cl = onSessionStarted_closures [OF k, of s]
  fix j
  assume j: "j < length (initARs (onSessionStarted k s st))"
    and jpc: "ar_pc (initARs (onSessionStarted k s st) ! j) = AwaitSession"
  from jpc cl pc have ne: "j \<noteq> k" by auto
  with cl j jpc agree_awaitD [OF a, of j]
  show "currentSession (initARs (onSessionStarted k s st) ! j) = None"
    by simp
next
  note cl = onSessionStarted_closures [OF k, of s]
  fix j s'
  assume j: "j < length (initARs (onSessionStarted k s st))"
    and js: "currentSession (initARs (onSessionStarted k s st) ! j) = Some s'"
  show "(s', OnSessionEnded j) \<in> set (endListeners (onSessionStarted k s st))"
  proof (cases "j = k")
    case True
    with cl js show ?thesis by (simp add: onSessionStarted_listeners)
  next
    case False
    with cl j js agree_heldD [OF a, of j s'] show ?thesis
      by (simp add: onSessionStarted_listeners)
  qed
qed

lemma agree_settle:
  assumes a: "listeners_agree st" and k: "k < length (initARs st)"
    and pc: "ar_pc (initARs st ! k) = AwaitSession"
  shows "listeners_agree (st\<lparr>initARs := (initARs st)[k := (initARs st ! k)\<lparr>ar_pc := ArDone\<rparr>]\<rparr>)"
    (is "listeners_agree ?st1")
proof (rule listeners_agreeI)
  fix s j
  assume "(s, OnSessionEnded j) \<in> set (endListeners ?st1)"
  then have "(s, OnSessionEnded j) \<in> set (endListeners st)" by simp
  from agree_listenerD [OF a this]
  show "j < length (initARs ?st1) \<and> currentSession (initARs ?st1 ! j) = Some s"
    by (cases "j = k") simp_all
next
  fix j
  assume "j < length (initARs ?st1)" and "ar_pc (initARs ?st1 ! j) = AwaitSession"
  with agree_awaitD [OF a, of j]
  show "currentSession (initARs ?st1 ! j) = None"
    by (cases "j = k") simp_all
next
  fix j s
  assume "j < length (initARs ?st1)" and "currentSession (initARs ?st1 ! j) = Some s"
  with agree_heldD [OF a, of j s]
  show "(s, OnSessionEnded j) \<in> set (endListeners ?st1)"
    by (cases "j = k") simp_all
qed

lemma agree_initAR_resume:
  assumes a: "listeners_agree st"
  shows "listeners_agree (snd (initAR_resume k settled st))"
proof (cases "k < length (initARs st) \<and> ar_pc (initARs st ! k) = AwaitSession")
  case False
  then have "initAR_resume k settled st = (Fulfilled (), st)"
    by (auto simp: initAR_resume_def)
  with a show ?thesis by simp
next
  case True
  let ?st1 = "st\<lparr>initARs := (initARs st)[k := (initARs st ! k)\<lparr>ar_pc := ArDone\<rparr>]\<rparr>"
  from True have k: "k < length (initARs st)" and pc: "ar_pc (initARs st ! k) = AwaitSession"
    by auto
  have 1: "listeners_agree ?st1" using a k pc by (rule agree_settle)
  show ?thesis
  proof (cases settled)
    case (Rejected err)
    with True 1 show ?thesis by (simp add: initAR_resume_def Let_def)
  next
    case (Fulfilled s)
    from agree_awaitD [OF a k pc] k
    have "listeners_agree (onSessionStarted k s ?st1)"
      by (intro agree_started [OF 1]) simp_all
    with True Fulfilled show ?thesis by (simp add: initAR_resume_def Let_def)
  qed
qed

lemma render_closures:
  "initARs (fst (render g frame st)) = initARs st \<and>
   endListeners (fst (render g frame st)) = endListeners st"
  by (auto simp: render_def renderer_render_def requestHitTestSource_def
      getHitTestResults_def Let_def
      split: option.splits list.splits completion.splits prod.splits)

lemma frame_event_closures:
  "initARs (frame_event g frame st) = initARs st \<and>
   endListeners (frame_event g frame st) = endListeners st"
proof (cases "render g frame st")
  case (Pair st1 c)
  with render_closures [of g frame st] show ?thesis
    by (cases c; cases frame) (simp_all add: frame_event_def)
qed

lemma agree_step:
  assumes a: "listeners_agree st"
  shows "listeners_agree (step g st e)"
proof (cases e)
  case (Click chairId)
  from a have "listeners_agree (click chairId st)"
    by (rule agree_transfer) (simp_all add: click_def)
  with Click show ?thesis by simp
next
  case (ChairSettled i fetched)
  with a show ?thesis by (simp add: agree_click_resume)
next
  case (SessionSettled k settled)
  obtain p st1 where r: "initAR_resume k settled st = (p, st1)"
    by (cases "initAR_resume k settled st")
  with agree_initAR_resume [OF a, of k settled] have 1: "listeners_agree st1" by simp
  then have "listeners_agree (st1\<lparr>unhandled := unhandled st1 @ [err]\<rparr>)" for err
    by (rule agree_transfer) simp_all
  with 1 r SessionSettled show ?thesis by (cases p) simp_all
next
  case (SessionEnd s)
  with a show ?thesis by (simp add: sessionEnd_def agree_dispatch)
next
  case (Frame frame)
  from a have "listeners_agree (frame_event g frame st)"
    by (rule agree_transfer) (simp_all add: frame_event_closures)
  with Frame show ?thesis by simp
next
  case (ReferenceSpaceSettled i settled)
  from a have "listeners_agree (resumeReferenceSpace i settled st)"
    by (rule agree_transfer)
       (simp_all add: resumeReferenceSpace_def split: ht_pc.splits settled.splits)
  with ReferenceSpaceSettled show ?thesis by simp
next
  case (HitTestSourceSettled i settled)
  have "initARs (resumeHitTestSource i settled st) = initARs st"
    by (simp add: resumeHitTestSource_def split: ht_pc.splits settled.splits)
  moreover have "\<exists>s. set (endListeners (resumeHitTestSource i settled st)) =
      set (endListeners st) \<or> set (endListeners (resumeHitTestSource i settled st)) =
      insert (s, ResetHitTest i) (set (endListeners st))"
    by (auto simp: resumeHitTestSource_def addEventListener_def
        split: ht_pc.splits settled.splits)
  ultimately have "listeners_agree (resumeHitTestSource i settled st)"
    using a unfolding listeners_agree_def by (elim exE disjE) (simp_all only: set_simps insert_iff prod.inject listener.distinct simp_thms)
  with HitTestSourceSettled show ?thesis by simp
next
  case Select
  from a have "listeners_agree (select_event st)"
    by (rule agree_transfer)
       (simp_all add: select_event_def onSelect_def Let_def split: option.splits)
  with Select show ?thesis by simp
qed


lemma agree_initApp: "listeners_agree (initApp h a c e r)"
  by (auto simp: listeners_agree_def initApp_def initScene_def setEnvironment_def loadReticle_def
      setupXR_def scene_add_def split: settled.splits)

section \<open>Starting a session (\<^verbatim>\<open>initAR\<close>)\<close>

text \<open>
  Every invocation of \<^verbatim>\<open>initAR\<close> declares its own \<^verbatim>\<open>currentSession\<close> (line 150), so the
  test of line 177 always finds \<^verbatim>\<open>null\<close>: the invocation asks the host for a session, and
  the branch that ends the held session (line 181) is never taken.
\<close>

lemma initAR_requests:
  "calls (initAR ch st) = calls st @ [RequestSession (length (initARs st))]"
  by (simp add: initAR_def Let_def)

text \<open>
  Claim C1 says that invoking \<^verbatim>\<open>initAR\<close> while a session is active ends that session
  instead of requesting a new one, so that no two sessions coexist. The code does not: after
  a first click was granted session 1, a second click makes a second request
  (\<open>RequestSession 1\<close>) and no \<open>EndSession\<close> call; the first invocation still holds
  session 1, and when the host grants the second request the program holds sessions 1 and
  2 at once.
\<close>

theorem second_click_requests_second_session:
  "calls (run [] (started (Fulfilled 2))
      (enter_ar @ [Click ''3'', ChairSettled 1 (Fulfilled 11)])) =
     [RequestSession 0, RequestSession 1] \<and>
   map currentSession (initARs (run [] (started (Fulfilled 2))
      (enter_ar @ [Click ''3'', ChairSettled 1 (Fulfilled 11)]))) = [Some 1, None] \<and>
   map currentSession (initARs (run [] (started (Fulfilled 2))
      (enter_ar @ [Click ''3'', ChairSettled 1 (Fulfilled 11),
                   SessionSettled 1 (Fulfilled 2)]))) = [Some 1, Some 2]"
  by (simp add: app_defs)

text \<open>
  Claim C8: when the session request of \<^verbatim>\<open>initAR\<close> rejects, nothing catches the failure.
  For an invocation \<open>k\<close> suspended at its request, the promise of \<^verbatim>\<open>initAR\<close> is rejected
  with the same error, nothing is written to the console, and no listener is attached; the
  click handler attached no handler to that promise, so the rejection ends up unhandled.
\<close>

theorem initAR_rejection_unhandled:
  assumes "k < length (initARs st)" and "ar_pc (initARs st ! k) = AwaitSession"
  shows "fst (initAR_resume k (Rejected err) st) = Rejected err \<and>
         console (snd (initAR_resume k (Rejected err) st)) = console st \<and>
         unhandled (snd (initAR_resume k (Rejected err) st)) = unhandled st \<and>
         endListeners (snd (initAR_resume k (Rejected err) st)) = endListeners st \<and>
         unhandled (step g st (SessionSettled k (Rejected err))) = unhandled st @ [err] \<and>
         console (step g st (SessionSettled k (Rejected err))) = console st"
  using assms by (simp add: initAR_resume_def Let_def)

text \<open>
  At a concrete run: the request of the first click is refused by the host.
\<close>

theorem initAR_rejection_unhandled_witness:
  "unhandled (run [] (started (Fulfilled 2))
      [Click ''3'', ChairSettled 0 (Fulfilled 10),
       SessionSettled 0 (Rejected (HostError ''NotSupportedError''))]) =
     [HostError ''NotSupportedError''] \<and>
   console (run [] (started (Fulfilled 2))
      [Click ''3'', ChairSettled 0 (Fulfilled 10),
       SessionSettled 0 (Rejected (HostError ''NotSupportedError''))]) = []"
proof -
  let ?st = "run [] (started (Fulfilled 2)) [Click ''3'', ChairSettled 0 (Fulfilled 10)]"
  have k: "0 < length (initARs ?st)" and pc: "ar_pc (initARs ?st ! 0) = AwaitSession"
    and u: "unhandled ?st = []" and c: "console ?st = []"
    by (simp_all add: app_defs)
  have "run [] (started (Fulfilled 2))
      [Click ''3'', ChairSettled 0 (Fulfilled 10),
       SessionSettled 0 (Rejected (HostError ''NotSupportedError''))] =
     step [] ?st (SessionSettled 0 (Rejected (HostError ''NotSupportedError'')))"
    by (simp only: run.simps)
  with initAR_rejection_unhandled [OF k pc, of "HostError ''NotSupportedError''" "[]"] u c
  show ?thesis by (simp only: append_Nil simp_thms)
qed

section \<open>Ending a session (\<^verbatim>\<open>onSessionEnded\<close>)\<close>

lemma ended_transfer:
  "session_ended k ch st \<Longrightarrow> initARs st' = initARs st \<Longrightarrow> children st' = children st \<Longrightarrow>
   animationLoop st' = animationLoop st \<Longrightarrow> session_ended k ch st'"
  by (simp add: session_ended_def)










section \<open>Placement on selection (\<^verbatim>\<open>onSelect\<close>)\<close>

text \<open>
  Claim C4 says that a selection whose preconditions fail is a no-op and not an error. When
  the reticle failed to load, \<^verbatim>\<open>loadReticle\<close> returned \<^verbatim>\<open>undefined\<close> and \<^verbatim>\<open>setupXR\<close> was
  given it; with a chair set, \<^verbatim>\<open>onSelect\<close> then reads \<^verbatim>\<open>reticle.visible\<close> of \<^verbatim>\<open>undefined\<close>
  and throws, although no marker is visible.
\<close>

theorem onSelect_absent_marker_counterexample:
  "chair (run [] (started (Rejected (HostError ''fetch''))) enter_ar) = Some 10 \<and>
   reticle (run [] (started (Rejected (HostError ''fetch''))) enter_ar) = None \<and>
   snd (onSelect (run [] (started (Rejected (HostError ''fetch''))) enter_ar)) =
     Threw (TypeError ''reticle.visible'')"
  by (simp add: app_defs)

text \<open>
  Claim C4, for a marker that exists: \<^verbatim>\<open>onSelect\<close> never throws; when the object reference
  is set and the marker is visible, the object gets the position read from the marker's
  matrix and is made visible; when the reference is not set or the marker is not visible,
  nothing changes at all.
\<close>

theorem onSelect_places_iff:
  assumes "reticle st = Some r"
  shows "snd (onSelect st) = Normal \<and>
         (\<forall>c. chair st = Some c \<and> visible (heap st r) \<longrightarrow>
            heap (fst (onSelect st)) c =
              (heap st c)\<lparr>position := setFromMatrixPosition (matrix (heap st r)),
                          visible := True\<rparr>) \<and>
         (chair st = None \<or> \<not> visible (heap st r) \<longrightarrow> fst (onSelect st) = st)"
  using assms by (auto simp: onSelect_def Let_def split: option.splits)

text \<open>
  At concrete states: a selection where a query has found a surface at (1, 2, 3), and a
  selection while the marker is still hidden.
\<close>

theorem onSelect_places_iff_witness:
  "snd (onSelect surface_found) = Normal \<and>
   position (heap (fst (onSelect surface_found)) 10) = \<lparr>vx = 1, vy = 2, vz = 3\<rparr> \<and>
   visible (heap (fst (onSelect surface_found)) 10) \<and>
   fst (onSelect (with_source (Fulfilled 2))) = with_source (Fulfilled 2)"
proof -
  have r: "reticle surface_found = Some 2" and c: "chair surface_found = Some 10"
    and v: "visible (heap surface_found 2)"
    and m: "setFromMatrixPosition (matrix (heap surface_found 2)) = \<lparr>vx = 1, vy = 2, vz = 3\<rparr>"
    by (simp_all add: app_defs)
  have r0: "reticle (with_source (Fulfilled 2)) = Some 2"
    and v0: "\<not> visible (heap (with_source (Fulfilled 2)) 2)"
    by (simp_all add: app_defs)
  from onSelect_places_iff [OF r] onSelect_places_iff [OF r0] c v m v0
  show ?thesis by simp
qed

text \<open>
  Claim C10: a selection changes nothing but the position and the visibility of the
  placeable object. Every other object of the store is unchanged; the rotation
  (quaternion), the scale and the matrix of the placeable object are unchanged; when the
  placement happens, the position is the translation of the marker's matrix; and no other
  part of the state (the scene's children, the closures' variables) changes.
\<close>

theorem onSelect_frame:
  "(\<forall>ob. chair st \<noteq> Some ob \<longrightarrow> heap (fst (onSelect st)) ob = heap st ob) \<and>
   (\<forall>c. chair st = Some c \<longrightarrow>
      quaternion (heap (fst (onSelect st)) c) = quaternion (heap st c) \<and>
      scale (heap (fst (onSelect st)) c) = scale (heap st c) \<and>
      matrix (heap (fst (onSelect st)) c) = matrix (heap st c)) \<and>
   (\<forall>c r. chair st = Some c \<and> reticle st = Some r \<and> visible (heap st r) \<longrightarrow>
      position (heap (fst (onSelect st)) c) = setFromMatrixPosition (matrix (heap st r)) \<and>
      visible (heap (fst (onSelect st)) c)) \<and>
   (fst (onSelect st))\<lparr>heap := heap st\<rparr> = st"
  by (auto simp: onSelect_def Let_def split: option.splits)

text \<open>
  At a concrete state, where a query has found a surface at (1, 2, 3): the marker
  (address 2) is untouched, the chair (address 10) keeps its rotation and scale and moves
  to (1, 2, 3).
\<close>

theorem onSelect_frame_witness:
  "heap (fst (onSelect surface_found)) 2 = heap surface_found 2 \<and>
   quaternion (heap (fst (onSelect surface_found)) 10) = (0, 0, 0, 1) \<and>
   scale (heap (fst (onSelect surface_found)) 10) = \<lparr>vx = 1, vy = 1, vz = 1\<rparr> \<and>
   position (heap (fst (onSelect surface_found)) 10) = \<lparr>vx = 1, vy = 2, vz = 3\<rparr>"
proof -
  have r: "reticle surface_found = Some 2" and c: "chair surface_found = Some 10"
    and v: "visible (heap surface_found 2)"
    and m: "setFromMatrixPosition (matrix (heap surface_found 2)) = \<lparr>vx = 1, vy = 2, vz = 3\<rparr>"
    and q: "quaternion (heap surface_found 10) = (0, 0, 0, 1)"
    and sc: "scale (heap surface_found 10) = \<lparr>vx = 1, vy = 1, vz = 1\<rparr>"
    by (simp_all add: app_defs)
  from onSelect_frame [of surface_found] r c v m q sc show ?thesis by simp
qed

section \<open>The marker on every frame (\<^verbatim>\<open>getHitTestResults\<close>)\<close>

text \<open>
  Claim C5 says that after every query with a hit-test source the marker is visible if and
  only if the query returned a result, and that its matrix is then the pose of the first
  result. Two queries with a source do otherwise. When \<^verbatim>\<open>getPose\<close> of the first result
  returns \<^verbatim>\<open>null\<close>, the marker has been made visible (line 110), its matrix is the one it
  had, and reading \<^verbatim>\<open>pose.transform\<close> throws (line 111). When the reticle failed to load,
  there is no marker and the query throws at \<^verbatim>\<open>reticle.visible\<close>.
\<close>

theorem getHitTestResults_null_pose_counterexample:
  "hitTestSource (with_source (Fulfilled 2)) = Some 4 \<and>
   reticle (with_source (Fulfilled 2)) = Some 2 \<and>
   visible (heap (fst (getHitTestResults (\<lambda>src. [None]) (with_source (Fulfilled 2)))) 2) \<and>
   matrix (heap (fst (getHitTestResults (\<lambda>src. [None]) (with_source (Fulfilled 2)))) 2) =
     matrix (heap (with_source (Fulfilled 2)) 2) \<and>
   snd (getHitTestResults (\<lambda>src. [None]) (with_source (Fulfilled 2))) =
     Threw (TypeError ''pose.transform'') \<and>
   hitTestSource (with_source (Rejected (HostError ''fetch''))) = Some 4 \<and>
   reticle (with_source (Rejected (HostError ''fetch''))) = None \<and>
   snd (getHitTestResults (hit_at 1 2 3) (with_source (Rejected (HostError ''fetch'')))) =
     Threw (TypeError ''reticle.visible'')"
  by (simp add: app_defs)

text \<open>
  Claim C5, for a marker that exists: after the query of a frame with a hit-test source,
  the marker is visible if and only if the query returned at least one result; when the
  first result has a pose, the marker's matrix is that pose and the query completes; when
  it has none, the matrix is left as it was and the query throws; and with no result the
  marker is hidden.
\<close>

theorem getHitTestResults_marker:
  assumes "hitTestSource st = Some src" and "reticle st = Some r"
  shows "(visible (heap (fst (getHitTestResults frame st)) r) \<longleftrightarrow> frame src \<noteq> []) \<and>
         (\<forall>m rest. frame src = Some m # rest \<longrightarrow>
            matrix (heap (fst (getHitTestResults frame st)) r) = m \<and>
            snd (getHitTestResults frame st) = Normal) \<and>
         (\<forall>rest. frame src = None # rest \<longrightarrow>
            matrix (heap (fst (getHitTestResults frame st)) r) = matrix (heap st r) \<and>
            snd (getHitTestResults frame st) = Threw (TypeError ''pose.transform'')) \<and>
         (frame src = [] \<longrightarrow> \<not> visible (heap (fst (getHitTestResults frame st)) r))"
  using assms
  by (auto simp: getHitTestResults_def Let_def fromArray_def split: option.splits list.splits)

text \<open>
  At a concrete state: a query with a hit at (1, 2, 3), and a query without a hit.
\<close>

theorem getHitTestResults_marker_witness:
  "visible (heap (fst (getHitTestResults (hit_at 1 2 3) (with_source (Fulfilled 2)))) 2) \<and>
   matrix (heap (fst (getHitTestResults (hit_at 1 2 3) (with_source (Fulfilled 2)))) 2) =
     ((1, 0, 0, 0), (0, 1, 0, 0), (0, 0, 1, 0), (1, 2, 3, 1)) \<and>
   \<not> visible (heap (fst (getHitTestResults (\<lambda>src. []) (with_source (Fulfilled 2)))) 2)"
proof -
  have s: "hitTestSource (with_source (Fulfilled 2)) = Some 4"
    and r: "reticle (with_source (Fulfilled 2)) = Some 2"
    by (simp_all add: app_defs)
  from getHitTestResults_marker [OF s r, of "hit_at 1 2 3"]
    getHitTestResults_marker [OF s r, of "\<lambda>src. []"]
  show ?thesis by (simp add: hit_at_def)
qed

section \<open>The frame loop on a host without \<^verbatim>\<open>camera\<close>\<close>

text \<open>
  \<^verbatim>\<open>render\<close> reads \<^verbatim>\<open>camera\<close> at line 126, and no scope of the sources on its chain binds
  it. On a host whose global object does not bind it either, every call of \<^verbatim>\<open>render\<close>
  throws, and the loop that made the call requests no further frame.
\<close>

lemma held_iff:
  "held st s \<longleftrightarrow> (\<exists>k < length (initARs st). currentSession (initARs st ! k) = Some s)"
proof
  assume "held st s"
  then obtain c where "c \<in> set (initARs st)" and "currentSession c = Some s"
    by (auto simp: held_def)
  then show "\<exists>k < length (initARs st). currentSession (initARs st ! k) = Some s"
    by (auto simp: in_set_conv_nth)
next
  assume "\<exists>k < length (initARs st). currentSession (initARs st ! k) = Some s"
  then obtain k where "k < length (initARs st)" "currentSession (initARs st ! k) = Some s"
    by blast
  then have "Some s = currentSession (initARs st ! k)" "initARs st ! k \<in> set (initARs st)"
    by simp_all
  then show "held st s" unfolding held_def set_map by (rule image_eqI)
qed

lemma held_cong: "initARs st' = initARs st \<Longrightarrow> held st' s = held st s"
  by (simp add: held_def)

lemma guardedI:
  assumes "hitTestSource st \<noteq> None \<Longrightarrow>
      \<exists>s i. held st s \<and> (s, ResetHitTest i) \<in> set (endListeners st)"
    and "requested (xrAnimation st) \<Longrightarrow> hitTestSource st = None"
    and "\<And>t s. requested (xrAnimation st) \<Longrightarrow> t \<in> set (hitTestTasks st) \<Longrightarrow>
      pending t = Some s \<Longrightarrow> \<not> held st s"
  shows "source_guarded st"
  unfolding source_guarded_def using assms by blast

lemma guarded_sourceD:
  "source_guarded st \<Longrightarrow> hitTestSource st \<noteq> None \<Longrightarrow>
   \<exists>s i. held st s \<and> (s, ResetHitTest i) \<in> set (endListeners st)"
  unfolding source_guarded_def by blast

lemma guarded_requestedD:
  "source_guarded st \<Longrightarrow> requested (xrAnimation st) \<Longrightarrow> hitTestSource st = None"
  unfolding source_guarded_def by blast

lemma guarded_pendingD:
  "source_guarded st \<Longrightarrow> requested (xrAnimation st) \<Longrightarrow> t \<in> set (hitTestTasks st) \<Longrightarrow>
   pending t = Some s \<Longrightarrow> \<not> held st s"
  unfolding source_guarded_def by blast

lemma guarded_transfer:
  assumes g: "source_guarded st" and h: "\<And>s. held st' s = held st s"
    and "endListeners st' = endListeners st" and "hitTestSource st' = hitTestSource st"
    and "xrAnimation st' = xrAnimation st"
    and t: "\<And>t s. t \<in> set (hitTestTasks st') \<Longrightarrow> pending t = Some s \<Longrightarrow>
      \<exists>t' \<in> set (hitTestTasks st). pending t' = Some s"
  shows "source_guarded st'"
proof (rule guardedI)
  assume "hitTestSource st' \<noteq> None"
  with assms(4) have "hitTestSource st \<noteq> None" by simp
  from guarded_sourceD [OF g this] h assms(3)
  show "\<exists>s i. held st' s \<and> (s, ResetHitTest i) \<in> set (endListeners st')" by simp
next
  assume "requested (xrAnimation st')"
  with assms(5) have "requested (xrAnimation st)" by simp
  from guarded_requestedD [OF g this] assms(4) show "hitTestSource st' = None" by simp
next
  fix t s
  assume "requested (xrAnimation st')" and t': "t \<in> set (hitTestTasks st')"
    and p: "pending t = Some s"
  with assms(5) have r: "requested (xrAnimation st)" by simp
  from t [OF t' p] obtain t0 where "t0 \<in> set (hitTestTasks st)" "pending t0 = Some s" by blast
  from guarded_pendingD [OF g r this] h show "\<not> held st' s" by simp
qed

lemma guarded_idle:
  assumes g: "source_guarded st" and i: "\<forall>c \<in> set (initARs st). currentSession c = None"
  shows "hitTestSource st = None"
proof (rule ccontr)
  assume ne: "hitTestSource st \<noteq> None"
  from guarded_sourceD [OF g ne] obtain s where "held st s" by blast
  with i show False by (auto simp: held_def)
qed

text \<open>A render on a host without \<^verbatim>\<open>camera\<close> never completes.\<close>

lemma camera_unbound:
  "''camera'' \<notin> set globals \<Longrightarrow> \<not> resolves (render_chain globals) ''camera''"
  by (simp add: resolves_def render_chain_def render_scope_def setupXR_scope_def
      module_scope_def)

lemma render_throws:
  assumes "''camera'' \<notin> set g"
  shows "\<exists>err. snd (render g frame st) = Threw err"
proof -
  note u = camera_unbound [OF assms]
  show ?thesis
    by (cases frame)
       (auto simp: render_def u Let_def split: prod.splits completion.splits)
qed

lemma render_fields:
  "hitTestSource (fst (render g frame st)) = hitTestSource st \<and>
   xrAnimation (fst (render g frame st)) = xrAnimation st \<and>
   animation (fst (render g frame st)) = animation st \<and>
   reticle (fst (render g frame st)) = reticle st"
  by (auto simp: render_def renderer_render_def requestHitTestSource_def
      getHitTestResults_def Let_def
      split: option.splits list.splits completion.splits prod.splits)

lemma render_without_source:
  assumes "''camera'' \<notin> set g" and "hitTestSource st = None"
  shows "snd (render g frame st) = Threw (ReferenceError ''camera'') \<and>
         heap (fst (render g frame st)) = heap st \<and>
         rendered (fst (render g frame st)) = rendered st"
proof -
  note u = camera_unbound [OF assms(1)]
  have "hitTestSource (requestHitTestSource st) = None"
    using assms(2) by (simp add: requestHitTestSource_def split: option.splits)
  then have 1: "getHitTestResults f (requestHitTestSource st) = (requestHitTestSource st, Normal)"
    for f by (simp add: getHitTestResults_def)
  have 2: "getHitTestResults f st = (st, Normal)" for f
    using assms(2) by (simp add: getHitTestResults_def)
  have 3: "heap (requestHitTestSource st) = heap st"
    "rendered (requestHitTestSource st) = rendered st"
    by (simp_all add: requestHitTestSource_def split: option.splits)
  show ?thesis
    by (cases frame) (simp_all add: render_def u 1 2 3)
qed

lemma render_without_frame:
  assumes "''camera'' \<notin> set g"
  shows "render g None st = (st, Threw (ReferenceError ''camera''))"
  using camera_unbound [OF assms] by (simp add: render_def)

lemma render_rendered:
  assumes "''camera'' \<notin> set g"
  shows "rendered (fst (render g frame st)) = rendered st"
  using camera_unbound [OF assms]
  by (auto simp: render_def requestHitTestSource_def getHitTestResults_def Let_def
      split: option.splits list.splits completion.splits prod.splits)

lemma render_uncaught: "uncaught (fst (render g frame st)) = uncaught st"
  by (auto simp: render_def renderer_render_def requestHitTestSource_def
      getHitTestResults_def Let_def
      split: option.splits list.splits completion.splits prod.splits)

subsection \<open>One listener of an end event\<close>

lemma invoke_source:
  "hitTestSource (invoke l st) = (case l of ResetHitTest i \<Rightarrow> None | _ \<Rightarrow> hitTestSource st)"
  by (cases l)
     (simp_all add: onSessionEnded_def Let_def scene_remove_def setAnimationLoop_def
       split: option.splits)

lemma invoke_requested:
  "requested (xrAnimation (invoke l st)) \<Longrightarrow> requested (xrAnimation st)"
  by (cases l)
     (simp_all add: onSessionEnded_def Let_def scene_remove_def setAnimationLoop_def stop_def
       split: option.splits if_splits)

lemma invoke_tasks: "hitTestTasks (invoke l st) = hitTestTasks st"
  by (cases l)
     (simp_all add: onSessionEnded_def Let_def scene_remove_def setAnimationLoop_def
       split: option.splits)

lemma invoke_resets:
  "(s, ResetHitTest i) \<in> set (endListeners st) \<Longrightarrow>
   (s, ResetHitTest i) \<in> set (endListeners (invoke l st))"
  by (cases l)
     (auto simp: onSessionEnded_def Let_def scene_remove_def setAnimationLoop_def
       removeEventListener_def split: option.splits)

lemma onSessionEnded_held:
  "held (onSessionEnded k st) s \<Longrightarrow> held st s"
proof (cases "k < length (initARs st) \<and> currentSession (initARs st ! k) \<noteq> None")
  case False
  then have "onSessionEnded k st = st" by (intro onSessionEnded_idle) auto
  then show "held (onSessionEnded k st) s \<Longrightarrow> ?thesis" by simp
next
  case True
  then obtain cs where k: "k < length (initARs st)"
    and cs: "currentSession (initARs st ! k) = Some cs"
    by auto
  assume "held (onSessionEnded k st) s"
  then obtain j where j: "j < length (initARs st)"
    and js: "currentSession (initARs (onSessionEnded k st) ! j) = Some s"
    by (auto simp: held_iff onSessionEnded_length)
  with onSessionEnded_held_closure [OF k cs] have "j \<noteq> k" by auto
  with js have "currentSession (initARs st ! j) = Some s" by (simp add: onSessionEnded_other)
  with j show ?thesis by (auto simp: held_iff)
qed

lemma invoke_held: "held (invoke l st) s \<Longrightarrow> held st s"
proof (cases l)
  case (OnSessionEnded k)
  then show "held (invoke l st) s \<Longrightarrow> ?thesis" by (auto dest: onSessionEnded_held)
next
  case (ResetHitTest i)
  then show "held (invoke l st) s \<Longrightarrow> ?thesis" by (simp add: held_def)
next
  case ManagerEnd
  then show "held (invoke l st) s \<Longrightarrow> ?thesis" by (simp add: held_def)
qed

lemma invoke_keeps_held:
  assumes a: "listeners_agree st" and r: "(s, l) \<in> set (endListeners st)"
    and h: "held st s0" and ne: "s0 \<noteq> s"
  shows "held (invoke l st) s0"
proof (cases l)
  case (OnSessionEnded k)
  from agree_listenerD [OF a] r OnSessionEnded have k: "k < length (initARs st)"
    and ks: "currentSession (initARs st ! k) = Some s"
    by auto
  from h obtain j where j: "j < length (initARs st)"
    and js: "currentSession (initARs st ! j) = Some s0"
    by (auto simp: held_iff)
  from js ks ne have "j \<noteq> k" by auto
  with j js have "j < length (initARs (onSessionEnded k st))"
    "currentSession (initARs (onSessionEnded k st) ! j) = Some s0"
    by (simp_all add: onSessionEnded_length onSessionEnded_other)
  then have "held (onSessionEnded k st) s0" unfolding held_iff by blast
  with OnSessionEnded show ?thesis by simp
next
  case (ResetHitTest i)
  with h show ?thesis by (simp add: held_def)
next
  case ManagerEnd
  with h show ?thesis by (simp add: held_def)
qed

subsection \<open>The whole end event\<close>

lemma dispatch_source_None:
  "hitTestSource st = None \<Longrightarrow> hitTestSource (dispatch s ls st) = None"
  by (induction ls arbitrary: st) (simp_all add: invoke_source split: listener.splits)

lemma dispatch_source:
  "hitTestSource (dispatch s ls st) \<noteq> None \<Longrightarrow>
   hitTestSource (dispatch s ls st) = hitTestSource st"
proof (induction ls arbitrary: st)
  case Nil
  then show ?case by simp
next
  case (Cons l ls)
  let ?st' = "if (s, l) \<in> set (endListeners st) then invoke l st else st"
  from Cons.prems have ne: "hitTestSource (dispatch s ls ?st') \<noteq> None" by simp
  from Cons.IH [OF ne] have eq: "hitTestSource (dispatch s ls ?st') = hitTestSource ?st'" .
  with ne have "hitTestSource ?st' \<noteq> None" by simp
  then have "hitTestSource ?st' = hitTestSource st"
    by (auto simp: invoke_source split: listener.splits if_splits)
  with eq show ?case by simp
qed

lemma dispatch_resets:
  "ResetHitTest i \<in> set ls \<Longrightarrow> (s, ResetHitTest i) \<in> set (endListeners st) \<Longrightarrow>
   hitTestSource (dispatch s ls st) = None"
proof (induction ls arbitrary: st)
  case Nil
  then show ?case by simp
next
  case (Cons l ls)
  show ?case
  proof (cases "l = ResetHitTest i")
    case True
    with Cons.prems(2) show ?thesis by (simp add: dispatch_source_None)
  next
    case False
    let ?st' = "if (s, l) \<in> set (endListeners st) then invoke l st else st"
    from False Cons.prems(1) have 1: "ResetHitTest i \<in> set ls" by simp
    from Cons.prems(2) have 2: "(s, ResetHitTest i) \<in> set (endListeners ?st')"
      by (simp add: invoke_resets)
    from Cons.IH [OF 1 2] show ?thesis by simp
  qed
qed

lemma dispatch_requested:
  "requested (xrAnimation (dispatch s ls st)) \<Longrightarrow> requested (xrAnimation st)"
proof (induction ls arbitrary: st)
  case Nil
  then show ?case by simp
next
  case (Cons l ls)
  let ?st' = "if (s, l) \<in> set (endListeners st) then invoke l st else st"
  from Cons.prems have "requested (xrAnimation (dispatch s ls ?st'))" by simp
  from Cons.IH [OF this] show ?case by (auto dest: invoke_requested split: if_splits)
qed

lemma dispatch_tasks: "hitTestTasks (dispatch s ls st) = hitTestTasks st"
  by (induction ls arbitrary: st) (simp_all add: invoke_tasks)

lemma dispatch_keeps_resets:
  "(s0, ResetHitTest i) \<in> set (endListeners st) \<Longrightarrow>
   (s0, ResetHitTest i) \<in> set (endListeners (dispatch s ls st))"
  by (induction ls arbitrary: st) (simp_all add: invoke_resets)

lemma dispatch_held: "held (dispatch s ls st) s0 \<Longrightarrow> held st s0"
proof (induction ls arbitrary: st)
  case Nil
  then show ?case by simp
next
  case (Cons l ls)
  let ?st' = "if (s, l) \<in> set (endListeners st) then invoke l st else st"
  from Cons.prems have "held (dispatch s ls ?st') s0" by simp
  from Cons.IH [OF this] show ?case by (auto dest: invoke_held split: if_splits)
qed

lemma dispatch_keeps_held:
  "listeners_agree st \<Longrightarrow> held st s0 \<Longrightarrow> s0 \<noteq> s \<Longrightarrow> held (dispatch s ls st) s0"
proof (induction ls arbitrary: st)
  case Nil
  then show ?case by simp
next
  case (Cons l ls)
  let ?st' = "if (s, l) \<in> set (endListeners st) then invoke l st else st"
  have 1: "listeners_agree ?st'" using Cons.prems(1) by (simp add: agree_invoke)
  have 2: "held ?st' s0"
    using Cons.prems by (simp add: invoke_keeps_held)
  from Cons.IH [OF 1 2 Cons.prems(3)] show ?case by simp
qed

lemma guarded_sessionEnd:
  assumes a: "listeners_agree st" and g: "source_guarded st"
  shows "source_guarded (sessionEnd s st)"
proof (rule guardedI)
  let ?ls = "map snd (filter (\<lambda>sl. fst sl = s) (endListeners st))"
  assume ne: "hitTestSource (sessionEnd s st) \<noteq> None"
  then have eq: "hitTestSource (sessionEnd s st) = hitTestSource st"
    unfolding sessionEnd_def by (rule dispatch_source)
  with ne have "hitTestSource st \<noteq> None" by simp
  from guarded_sourceD [OF g this] obtain s0 i where h: "held st s0"
    and r: "(s0, ResetHitTest i) \<in> set (endListeners st)"
    by blast
  have "s0 \<noteq> s"
  proof
    assume "s0 = s"
    with r have "ResetHitTest i \<in> set ?ls" by force
    from dispatch_resets [OF this] r \<open>s0 = s\<close>
    have "hitTestSource (sessionEnd s st) = None" by (simp add: sessionEnd_def)
    with ne show False by simp
  qed
  with a h have "held (sessionEnd s st) s0"
    unfolding sessionEnd_def by (intro dispatch_keeps_held)
  moreover from r have "(s0, ResetHitTest i) \<in> set (endListeners (sessionEnd s st))"
    unfolding sessionEnd_def by (rule dispatch_keeps_resets)
  ultimately show "\<exists>s' i. held (sessionEnd s st) s' \<and>
      (s', ResetHitTest i) \<in> set (endListeners (sessionEnd s st))"
    by blast
next
  assume "requested (xrAnimation (sessionEnd s st))"
  then have "requested (xrAnimation st)"
    unfolding sessionEnd_def by (rule dispatch_requested)
  from guarded_requestedD [OF g this]
  show "hitTestSource (sessionEnd s st) = None"
    by (simp add: sessionEnd_def dispatch_source_None)
next
  fix t s'
  assume "requested (xrAnimation (sessionEnd s st))"
    and t: "t \<in> set (hitTestTasks (sessionEnd s st))" and p: "pending t = Some s'"
  then have r: "requested (xrAnimation st)" and t': "t \<in> set (hitTestTasks st)"
    unfolding sessionEnd_def by (auto dest: dispatch_requested simp: dispatch_tasks)
  from guarded_pendingD [OF g r t' p] show "\<not> held (sessionEnd s st) s'"
    unfolding sessionEnd_def by (auto dest: dispatch_held)
qed

subsection \<open>The other events\<close>

lemma click_resume_fields:
  "endListeners (click_resume i f st) = endListeners st \<and>
   hitTestSource (click_resume i f st) = hitTestSource st \<and>
   xrAnimation (click_resume i f st) = xrAnimation st \<and>
   hitTestTasks (click_resume i f st) = hitTestTasks st \<and>
   reticle (click_resume i f st) = reticle st"
  by (simp add: click_resume_def loadChair_def scene_add_def setChair_def initAR_def
      setAnimationLoop_def Let_def split: settled.splits)

lemma click_resume_held: "held (click_resume i f st) s = held st s"
  by (simp add: click_resume_def loadChair_def scene_add_def setChair_def initAR_def
      setAnimationLoop_def Let_def held_def split: settled.splits)

lemma guarded_click_resume:
  "source_guarded st \<Longrightarrow> source_guarded (click_resume i f st)"
  by (rule guarded_transfer) (auto simp: click_resume_fields click_resume_held)

lemma guarded_grant:
  assumes g: "source_guarded st" and k: "k < length (initARs st)"
    and idle: "\<forall>c \<in> set (initARs st). currentSession c = None"
    and fresh: "Some s \<notin> set (map pending (hitTestTasks st))"
  shows "source_guarded (onSessionStarted k s
           (st\<lparr>initARs := (initARs st)[k := (initARs st ! k)\<lparr>ar_pc := ArDone\<rparr>]\<rparr>))"
    (is "source_guarded ?st'")
proof (rule guardedI)
  have src: "hitTestSource ?st' = hitTestSource st"
    by (simp add: onSessionStarted_def setSession_def Let_def)
  have tasks: "hitTestTasks ?st' = hitTestTasks st"
    by (simp add: onSessionStarted_def setSession_def Let_def)
  from guarded_idle [OF g idle] src have none: "hitTestSource ?st' = None" by simp
  {
    assume "hitTestSource ?st' \<noteq> None"
    with none show "\<exists>s' i. held ?st' s' \<and> (s', ResetHitTest i) \<in> set (endListeners ?st')"
      by simp
  next
    assume "requested (xrAnimation ?st')"
    from none show "hitTestSource ?st' = None" .
  next
    fix t s'
    assume "requested (xrAnimation ?st')" and t: "t \<in> set (hitTestTasks ?st')"
      and p: "pending t = Some s'"
    show "\<not> held ?st' s'"
    proof
      assume "held ?st' s'"
      then obtain j where j: "j < length (initARs st)"
        and js: "currentSession (initARs ?st' ! j) = Some s'"
        by (auto simp: held_iff onSessionStarted_def setSession_def Let_def)
      have "s' = s"
      proof (cases "j = k")
        case True
        with js k show ?thesis by (simp add: onSessionStarted_def setSession_def Let_def)
      next
        case False
        with js have "currentSession (initARs st ! j) = Some s'"
          by (simp add: onSessionStarted_def setSession_def Let_def)
        moreover from j idle have "currentSession (initARs st ! j) = None" by simp
        ultimately show ?thesis by simp
      qed
      with t p tasks have "Some s \<in> set (map pending (hitTestTasks st))" by force
      with fresh show False by simp
    qed
  }
qed

lemma held_pc:
  "held (st\<lparr>initARs := (initARs st)[k := (initARs st ! k)\<lparr>ar_pc := p\<rparr>]\<rparr>) s = held st s"
proof -
  have "currentSession (((initARs st)[k := (initARs st ! k)\<lparr>ar_pc := p\<rparr>]) ! j) =
      currentSession (initARs st ! j)" if "j < length (initARs st)" for j
    using that by (cases "j = k") simp_all
  then show ?thesis by (simp add: held_iff cong: conj_cong)
qed

lemma guarded_initAR_resume:
  assumes g: "source_guarded st" and ok: "host_ok st (SessionSettled k settled)"
  shows "source_guarded (snd (initAR_resume k settled st))"
proof (cases "k < length (initARs st) \<and> ar_pc (initARs st ! k) = AwaitSession")
  case False
  then have "initAR_resume k settled st = (Fulfilled (), st)"
    by (auto simp: initAR_resume_def)
  with g show ?thesis by simp
next
  case True
  show ?thesis
  proof (cases settled)
    case (Rejected err)
    have "source_guarded (st\<lparr>initARs := (initARs st)[k := (initARs st ! k)\<lparr>ar_pc := ArDone\<rparr>]\<rparr>)"
      using g
    proof (rule guarded_transfer)
      fix s
      show "held (st\<lparr>initARs := (initARs st)[k := (initARs st ! k)\<lparr>ar_pc := ArDone\<rparr>]\<rparr>) s =
          held st s"
        by (rule held_pc)
    qed auto
    with True Rejected show ?thesis by (simp add: initAR_resume_def Let_def)
  next
    case (Fulfilled s)
    with ok have "\<forall>c \<in> set (initARs st). currentSession c = None"
      and "Some s \<notin> set (map pending (hitTestTasks st))"
      by simp_all
    with g True have "source_guarded (onSessionStarted k s
           (st\<lparr>initARs := (initARs st)[k := (initARs st ! k)\<lparr>ar_pc := ArDone\<rparr>]\<rparr>))"
      by (intro guarded_grant) simp_all
    with True Fulfilled show ?thesis by (simp add: initAR_resume_def Let_def)
  qed
qed

lemma guarded_frame_event:
  assumes c: "''camera'' \<notin> set g" and g: "source_guarded st"
  shows "source_guarded (frame_event g frame st)"
proof (cases "delivers st frame")
  case False
  with g show ?thesis by (simp add: frame_event_def)
next
  case True
  show ?thesis
  proof (cases frame)
    case None
    with True render_without_frame [OF c, of st]
    have fe: "frame_event g frame st =
        st\<lparr>animation := (animation st)\<lparr>requested := False\<rparr>,
            uncaught := uncaught st @ [ReferenceError ''camera'']\<rparr>"
      by (simp add: frame_event_def)
    show ?thesis unfolding fe using g
      by (rule guarded_transfer) (auto simp: held_def)
  next
    case (Some f)
    with True have r: "requested (xrAnimation st)" by (simp add: delivers_def)
    from guarded_requestedD [OF g r] have none: "hitTestSource st = None" .
    obtain st1 err where rd: "render g frame st = (st1, Threw err)"
      using render_throws [OF c, of frame st] by (cases "render g frame st") auto
    from render_fields [of g frame st] rd none have n1: "hitTestSource st1 = None" by simp
    from True Some rd
    have fe: "frame_event g frame st =
        st1\<lparr>xrAnimation := (xrAnimation st1)\<lparr>requested := False\<rparr>,
            uncaught := uncaught st1 @ [err]\<rparr>"
      by (simp add: frame_event_def)
    show ?thesis unfolding fe by (rule guardedI) (simp_all add: n1)
  qed
qed

lemma pending_update:
  assumes "t \<in> set (ts[i := t'])" and "pending t = Some s"
    and "pending t' = Some s \<Longrightarrow> i < length ts \<and> pending (ts ! i) = Some s"
  shows "\<exists>t0 \<in> set ts. pending t0 = Some s"
proof (cases "t = t'")
  case True
  with assms(2,3) have "i < length ts" "pending (ts ! i) = Some s" by simp_all
  then show ?thesis using nth_mem by blast
next
  case False
  with assms(1) have "t \<in> set ts" by (auto dest: set_update_subset_insert [THEN subsetD])
  with assms(2) show ?thesis by blast
qed

lemma guarded_referenceSpace:
  assumes g: "source_guarded st"
  shows "source_guarded (resumeReferenceSpace i settled st)"
  using g
proof (rule guarded_transfer)
  fix t s
  assume t: "t \<in> set (hitTestTasks (resumeReferenceSpace i settled st))"
    and p: "pending t = Some s"
  show "\<exists>t0 \<in> set (hitTestTasks st). pending t0 = Some s"
  proof (cases "i < length (hitTestTasks st)")
    case False
    with t p show ?thesis by (auto simp: resumeReferenceSpace_def)
  next
    case True
    show ?thesis
    proof (cases "hitTestTasks st ! i")
      case (AwaitReferenceSpace s0)
      show ?thesis
      proof (cases settled)
        case (Fulfilled u)
        with True AwaitReferenceSpace t
        have "t \<in> set ((hitTestTasks st)[i := AwaitHitTestSource s0])"
          by (simp add: resumeReferenceSpace_def)
        from this p show ?thesis
          by (rule pending_update) (simp add: True AwaitReferenceSpace)
      next
        case (Rejected err)
        with True AwaitReferenceSpace t
        have "t \<in> set ((hitTestTasks st)[i := HtDone])"
          by (simp add: resumeReferenceSpace_def)
        from this p show ?thesis by (rule pending_update) simp
      qed
    next
      case (AwaitHitTestSource s0)
      with True t p show ?thesis by (auto simp: resumeReferenceSpace_def)
    next
      case HtDone
      with True t p show ?thesis by (auto simp: resumeReferenceSpace_def)
    qed
  qed
qed (simp_all add: resumeReferenceSpace_def held_def split: ht_pc.splits settled.splits)

lemma guarded_hitTestSource:
  assumes g: "source_guarded st" and ok: "host_ok st (HitTestSourceSettled i settled)"
  shows "source_guarded (resumeHitTestSource i settled st)"
proof (cases "i < length (hitTestTasks st)")
  case False
  with g show ?thesis by (simp add: resumeHitTestSource_def)
next
  case True
  show ?thesis
  proof (cases "hitTestTasks st ! i")
    case (AwaitReferenceSpace s0)
    with True g show ?thesis by (simp add: resumeHitTestSource_def)
  next
    case HtDone
    with True g show ?thesis by (simp add: resumeHitTestSource_def)
  next
    case (AwaitHitTestSource s0)
    show ?thesis
    proof (cases settled)
      case (Rejected err)
      have "source_guarded (st\<lparr>hitTestTasks := (hitTestTasks st)[i := HtDone],
          unhandled := unhandled st @ [err]\<rparr>)"
        using g
      proof (rule guarded_transfer)
        fix t s
        assume "t \<in> set (hitTestTasks (st\<lparr>hitTestTasks := (hitTestTasks st)[i := HtDone],
            unhandled := unhandled st @ [err]\<rparr>))"
        then have "t \<in> set ((hitTestTasks st)[i := HtDone])" by simp
        moreover assume "pending t = Some s"
        ultimately show "\<exists>t0 \<in> set (hitTestTasks st). pending t0 = Some s"
          by (rule pending_update) simp
      qed (simp_all add: held_def)
      with True AwaitHitTestSource Rejected show ?thesis
        by (simp add: resumeHitTestSource_def)
    next
      case (Fulfilled src)
      with ok True AwaitHitTestSource have h: "held st s0" by simp
      have nr: "\<not> requested (xrAnimation st)"
      proof
        assume r: "requested (xrAnimation st)"
        from True have "hitTestTasks st ! i \<in> set (hitTestTasks st)" by simp
        from guarded_pendingD [OF g r this, of s0] AwaitHitTestSource h show False by simp
      qed
      let ?st' = "st\<lparr>hitTestTasks := (hitTestTasks st)[i := HtDone],
          hitTestSource := Some src,
          endListeners := addEventListener s0 (ResetHitTest i) (endListeners st),
          hitTestSourceRequested := True\<rparr>"
      have "source_guarded ?st'"
      proof (rule guardedI)
        have "held ?st' s0" using h by (simp add: held_def)
        moreover have "(s0, ResetHitTest i) \<in> set (endListeners ?st')"
          by (simp add: addEventListener_def)
        ultimately show "\<exists>s' j. held ?st' s' \<and> (s', ResetHitTest j) \<in> set (endListeners ?st')"
          by blast
      qed (simp_all add: nr)
      with True AwaitHitTestSource Fulfilled show ?thesis
        by (simp add: resumeHitTestSource_def)
    qed
  qed
qed

lemma select_event_fields:
  "initARs (select_event st) = initARs st \<and>
   endListeners (select_event st) = endListeners st \<and>
   hitTestSource (select_event st) = hitTestSource st \<and>
   xrAnimation (select_event st) = xrAnimation st \<and>
   hitTestTasks (select_event st) = hitTestTasks st \<and>
   reticle (select_event st) = reticle st"
  by (simp add: select_event_def onSelect_def Let_def split: option.splits)

lemma guarded_step:
  assumes c: "''camera'' \<notin> set g" and a: "listeners_agree st" and s: "source_guarded st"
    and ok: "host_ok st e"
  shows "source_guarded (step g st e)"
proof (cases e)
  case (Click chairId)
  from s have "source_guarded (click chairId st)"
    by (rule guarded_transfer) (auto simp: click_def held_def)
  with Click show ?thesis by simp
next
  case (ChairSettled i fetched)
  with s show ?thesis by (simp add: guarded_click_resume)
next
  case (SessionSettled k settled)
  obtain p st1 where r: "initAR_resume k settled st = (p, st1)"
    by (cases "initAR_resume k settled st")
  from guarded_initAR_resume [OF s, of k settled] ok SessionSettled r
  have 1: "source_guarded st1" by simp
  then have "source_guarded (st1\<lparr>unhandled := unhandled st1 @ [err]\<rparr>)" for err
    by (rule guarded_transfer) (auto simp: held_def)
  with 1 r SessionSettled show ?thesis by (cases p) simp_all
next
  case (SessionEnd x)
  with a s show ?thesis by (simp add: guarded_sessionEnd)
next
  case (Frame frame)
  with c s show ?thesis by (simp add: guarded_frame_event)
next
  case (ReferenceSpaceSettled i settled)
  with s show ?thesis by (simp add: guarded_referenceSpace)
next
  case (HitTestSourceSettled i settled)
  with s ok show ?thesis by (simp add: guarded_hitTestSource)
next
  case Select
  from s have "source_guarded (select_event st)"
    by (rule guarded_transfer) (auto simp: select_event_fields held_def)
  with Select show ?thesis by simp
qed

subsection \<open>The objects of the scene on a host without \<^verbatim>\<open>camera\<close>\<close>

lemma onSessionEnded_store:
  "heap (onSessionEnded k st) = heap st \<and> reticle (onSessionEnded k st) = reticle st \<and>
   rendered (onSessionEnded k st) = rendered st"
  by (simp add: onSessionEnded_def scene_remove_def setAnimationLoop_def Let_def
      split: option.splits)

lemma invoke_store:
  "heap (invoke l st) = heap st \<and> reticle (invoke l st) = reticle st \<and>
   rendered (invoke l st) = rendered st"
  by (cases l) (simp_all add: onSessionEnded_store)

lemma dispatch_store:
  "heap (dispatch s ls st) = heap st \<and> reticle (dispatch s ls st) = reticle st \<and>
   rendered (dispatch s ls st) = rendered st"
  by (induction ls arbitrary: st) (simp_all add: invoke_store)

lemma click_resume_store:
  "(heap (click_resume i f st) ob = heap st ob \<or>
    heap (click_resume i f st) ob = (heap st ob)\<lparr>visible := False\<rparr>) \<and>
   reticle (click_resume i f st) = reticle st \<and>
   rendered (click_resume i f st) = rendered st"
  by (simp add: click_resume_def loadChair_def scene_add_def setChair_def initAR_def
      setAnimationLoop_def Let_def split: settled.splits)

lemma initAR_resume_store:
  "heap (snd (initAR_resume k settled st)) = heap st \<and>
   reticle (snd (initAR_resume k settled st)) = reticle st \<and>
   rendered (snd (initAR_resume k settled st)) = rendered st"
  by (simp add: initAR_resume_def onSessionStarted_def setSession_def Let_def
      split: settled.splits)

lemma frame_event_store:
  assumes c: "''camera'' \<notin> set g" and g: "source_guarded st"
  shows "heap (frame_event g frame st) = heap st \<and>
         reticle (frame_event g frame st) = reticle st \<and>
         rendered (frame_event g frame st) = rendered st"
proof (cases "delivers st frame")
  case False
  then show ?thesis by (simp add: frame_event_def)
next
  case True
  show ?thesis
  proof (cases frame)
    case None
    with True render_without_frame [OF c, of st] show ?thesis
      by (simp add: frame_event_def)
  next
    case (Some f)
    with True have "requested (xrAnimation st)" by (simp add: delivers_def)
    from guarded_requestedD [OF g this] have none: "hitTestSource st = None" .
    obtain st1 where rd: "render g frame st = (st1, Threw (ReferenceError ''camera''))"
      using render_without_source [OF c none, of frame] by (cases "render g frame st") auto
    from render_without_source [OF c none, of frame] render_fields [of g frame st] rd
    have "heap st1 = heap st" "rendered st1 = rendered st" "reticle st1 = reticle st"
      by simp_all
    with True Some rd show ?thesis by (simp add: frame_event_def)
  qed
qed

lemma select_event_store:
  assumes "marker_hidden st"
  shows "heap (select_event st) = heap st \<and> reticle (select_event st) = reticle st \<and>
         rendered (select_event st) = rendered st"
  using assms
  by (simp add: marker_hidden_def select_event_def onSelect_def Let_def split: option.splits)

lemma step_store:
  assumes c: "''camera'' \<notin> set g" and g: "source_guarded st" and m: "marker_hidden st"
  shows "(heap (step g st e) ob = heap st ob \<or>
          heap (step g st e) ob = (heap st ob)\<lparr>visible := False\<rparr>) \<and>
         reticle (step g st e) = reticle st \<and> rendered (step g st e) = rendered st"
proof (cases e)
  case (Click chairId)
  then show ?thesis by (simp add: click_def)
next
  case (ChairSettled i fetched)
  then show ?thesis by (simp add: click_resume_store)
next
  case (SessionSettled k settled)
  obtain p st1 where r: "initAR_resume k settled st = (p, st1)"
    by (cases "initAR_resume k settled st")
  with initAR_resume_store [of k settled st] SessionSettled show ?thesis
    by (cases p) simp_all
next
  case (SessionEnd s)
  then show ?thesis by (simp add: sessionEnd_def dispatch_store)
next
  case (Frame frame)
  with frame_event_store [OF c g] show ?thesis by simp
next
  case (ReferenceSpaceSettled i settled)
  then show ?thesis
    by (simp add: resumeReferenceSpace_def split: ht_pc.splits settled.splits)
next
  case (HitTestSourceSettled i settled)
  then show ?thesis
    by (simp add: resumeHitTestSource_def split: ht_pc.splits settled.splits)
next
  case Select
  with select_event_store [OF m] show ?thesis by simp
qed

lemma hidden_step:
  assumes c: "''camera'' \<notin> set g" and g: "source_guarded st" and m: "marker_hidden st"
  shows "marker_hidden (step g st e)"
  unfolding marker_hidden_def
proof (intro allI impI)
  fix r
  assume "reticle (step g st e) = Some r"
  with step_store [OF c g m, of e r] have r: "reticle st = Some r"
    and h: "heap (step g st e) r = heap st r \<or>
            heap (step g st e) r = (heap st r)\<lparr>visible := False\<rparr>"
    by simp_all
  from m r have "\<not> visible (heap st r)" by (simp add: marker_hidden_def)
  with h show "\<not> visible (heap (step g st e) r)" by auto
qed

subsection \<open>Every state an admissible run reaches\<close>

lemma guarded_initApp: "source_guarded (initApp h ambient controller envFetched reticleFetched)"
  by (rule guardedI)
     (simp_all add: initApp_def initScene_def setEnvironment_def loadReticle_def setupXR_def
      scene_add_def split: settled.splits)

lemma hidden_initApp: "marker_hidden (initApp h ambient controller envFetched reticleFetched)"
  by (simp add: marker_hidden_def initApp_def initScene_def setEnvironment_def
      loadReticle_def setupXR_def scene_add_def split: settled.splits)

lemma rendered_initApp: "rendered (initApp h ambient controller envFetched reticleFetched) = 0"
  by (simp add: initApp_def initScene_def setEnvironment_def
      loadReticle_def setupXR_def scene_add_def split: settled.splits)

lemma admissible_run:
  assumes c: "''camera'' \<notin> set g"
  shows "admissible g st evs \<Longrightarrow> listeners_agree st \<Longrightarrow> source_guarded st \<Longrightarrow>
    marker_hidden st \<Longrightarrow>
    listeners_agree (run g st evs) \<and> source_guarded (run g st evs) \<and>
    marker_hidden (run g st evs) \<and> rendered (run g st evs) = rendered st \<and>
    reticle (run g st evs) = reticle st \<and>
    position (heap (run g st evs) ob) = position (heap st ob) \<and>
    quaternion (heap (run g st evs) ob) = quaternion (heap st ob) \<and>
    scale (heap (run g st evs) ob) = scale (heap st ob) \<and>
    matrix (heap (run g st evs) ob) = matrix (heap st ob)"
proof (induction evs arbitrary: st)
  case Nil
  then show ?case by simp
next
  case (Cons e es)
  from Cons.prems have ok: "host_ok st e" and adm: "admissible g (step g st e) es"
    by simp_all
  have a: "listeners_agree (step g st e)" using Cons.prems(2) by (rule agree_step)
  have s: "source_guarded (step g st e)"
    using c Cons.prems(2,3) ok by (rule guarded_step)
  have m: "marker_hidden (step g st e)" using c Cons.prems(3,4) by (rule hidden_step)
  note st = step_store [OF c Cons.prems(3,4), of e]
  have pose: "position (heap (step g st e) ob) = position (heap st ob)"
    "quaternion (heap (step g st e) ob) = quaternion (heap st ob)"
    "scale (heap (step g st e) ob) = scale (heap st ob)"
    "matrix (heap (step g st e) ob) = matrix (heap st ob)"
    using st [of ob] by auto
  from Cons.IH [OF adm a s m] pose st [of ob] show ?case by simp
qed

lemma reachable:
  assumes "''camera'' \<notin> set g"
    and "admissible g (initApp h ambient controller envFetched reticleFetched) evs"
  shows "source_guarded (run g (initApp h ambient controller envFetched reticleFetched) evs)"
    and "marker_hidden (run g (initApp h ambient controller envFetched reticleFetched) evs)"
    and "rendered (run g (initApp h ambient controller envFetched reticleFetched) evs) = 0"
  using admissible_run [OF assms agree_initApp guarded_initApp hidden_initApp]
  by (simp_all add: rendered_initApp)

subsection \<open>One session, one request\<close>



text \<open>
  Claim C6: every invocation of \<^verbatim>\<open>render\<close> faults with a reference error at \<^verbatim>\<open>camera\<close>
  instead of rendering the scene. \<^verbatim>\<open>camera\<close> is a local of \<^verbatim>\<open>initApp\<close> and is on no scope
  of \<^verbatim>\<open>render\<close>'s chain, so on a host whose global object does not bind it no call of
  \<^verbatim>\<open>render\<close>, in any state and with any frame, completes or renders. In every state the
  application reaches from its start by events a host can send, every frame the loop
  delivers to \<^verbatim>\<open>render\<close> ends with the ReferenceError of line 126, and the scene has
  never been rendered: \<^verbatim>\<open>getHitTestResults\<close>, which runs before line 126 and could throw
  first, finds no hit-test source in any invocation the loop makes.
\<close>

theorem render_faults_at_camera:
  assumes "''camera'' \<notin> set g"
    and "admissible g (initApp h ambient controller envFetched reticleFetched) evs"
    and "st = run g (initApp h ambient controller envFetched reticleFetched) evs"
    and "delivers st frame"
  shows "''camera'' \<in> set initApp_scope \<and> \<not> resolves (render_chain g) ''camera'' \<and>
         (\<forall>st' frame'. snd (render g frame' st') \<noteq> Normal \<and>
            rendered (fst (render g frame' st')) = rendered st') \<and>
         snd (render g frame st) = Threw (ReferenceError ''camera'') \<and>
         rendered (fst (render g frame st)) = 0 \<and>
         uncaught (step g st (Frame frame)) = uncaught st @ [ReferenceError ''camera'']"
proof -
  note c = assms(1)
  from reachable [OF c assms(2)] assms(3)
  have g: "source_guarded st" and r: "rendered st = 0" by simp_all
  have all: "snd (render g frame' st') \<noteq> Normal \<and>
      rendered (fst (render g frame' st')) = rendered st'" for st' frame'
    using render_throws [OF c, of frame' st'] render_rendered [OF c, of frame' st'] by auto
  have thrown: "render g frame st = (fst (render g frame st), Threw (ReferenceError ''camera''))"
  proof (cases frame)
    case None
    with render_without_frame [OF c, of st] show ?thesis by simp
  next
    case (Some f)
    with assms(4) have "requested (xrAnimation st)" by (simp add: delivers_def)
    from guarded_requestedD [OF g this] have "hitTestSource st = None" .
    from render_without_source [OF c this, of frame] show ?thesis
      by (cases "render g frame st") simp
  qed
  have u: "uncaught (fst (render g frame st)) = uncaught st"
    by (rule render_uncaught)
  have ev: "uncaught (step g st (Frame frame)) = uncaught st @ [ReferenceError ''camera'']"
  proof (cases frame)
    case None
    with assms(4) thrown u show ?thesis
      by (cases "render g None st") (simp add: frame_event_def)
  next
    case (Some f)
    with assms(4) thrown u show ?thesis
      by (cases "render g (Some f) st") (simp add: frame_event_def)
  qed
  from thrown have "snd (render g frame st) = Threw (ReferenceError ''camera'')"
    by (cases "render g frame st") simp
  with all r ev camera_unbound [OF c] show ?thesis
    by (simp add: initApp_scope_def)
qed

text \<open>
  At a concrete run, on a host whose global object binds \<^verbatim>\<open>window\<close>, \<^verbatim>\<open>document\<close> and
  \<^verbatim>\<open>navigator\<close>: the first frame of the session granted to the first click.
\<close>

theorem render_faults_at_camera_witness:
  "snd (render [''window'', ''document'', ''navigator''] (Some (hit_at 1 2 3))
     (run [''window'', ''document'', ''navigator''] (started (Fulfilled 2)) enter_ar)) =
     Threw (ReferenceError ''camera'') \<and>
   rendered (fst (render [''window'', ''document'', ''navigator''] (Some (hit_at 1 2 3))
     (run [''window'', ''document'', ''navigator''] (started (Fulfilled 2)) enter_ar))) = 0"
proof -
  let ?g = "[''window'', ''document'', ''navigator'']"
  let ?st = "run ?g (started (Fulfilled 2)) enter_ar"
  have c: "''camera'' \<notin> set ?g" by simp
  have a: "admissible ?g (initApp sample_store 0 1 (Fulfilled 0) (Fulfilled 2)) enter_ar"
    by (simp add: app_defs)
  have st: "?st = run ?g (initApp sample_store 0 1 (Fulfilled 0) (Fulfilled 2)) enter_ar"
    by (simp only: started_def)
  have d: "delivers ?st (Some (hit_at 1 2 3))" by (simp add: app_defs)
  from render_faults_at_camera [OF c a st d] show ?thesis by blast
qed






section \<open>The loaders\<close>

text \<open>
  Claim C7: when the fetch of a loader rejects, the loader logs the failure and its promise
  is fulfilled with \<^verbatim>\<open>undefined\<close>: nothing is thrown to the caller and no error value is
  returned. This holds for \<^verbatim>\<open>setEnvironment\<close>, \<^verbatim>\<open>loadReticle\<close> and \<^verbatim>\<open>loadChair\<close>, in
  every state.
\<close>

theorem loaders_swallow_rejection:
  "setEnvironment (Rejected err) st =
     (Fulfilled None,
      st\<lparr>console := console st @ [(''An error occurred setting the environment'', err)]\<rparr>) \<and>
   loadReticle (Rejected err) st =
     (Fulfilled None,
      st\<lparr>console := console st @ [(''An error occurred loading the reticle'', err)]\<rparr>) \<and>
   loadChair (Rejected err) st =
     (Fulfilled None,
      st\<lparr>console := console st @ [(''An error occurred loading the chair'', err)]\<rparr>)"
  by (simp add: setEnvironment_def loadReticle_def loadChair_def)

end
